theory Spec2Isabelle
  imports Main "HOL-Library.Word"
begin

unbundle bit_operations_syntax

section \<open>Bytes, strings and errors\<close>

text \<open>
  A Python \<open>bytes\<close> value is a list of 8-bit words.  A Python \<open>str\<close> is a list of
  Unicode code points.  Lengths, positions and offsets are byte counts: they come from
  \<open>len\<close>, from constants and from unsigned \<open>struct.unpack\<close> fields, so they are
  natural numbers (Python integers do not overflow, and neither does \<open>nat\<close>).
\<close>

type_synonym byte = "8 word"
type_synonym bytes = "byte list"
type_synonym str = "nat list"

text \<open>
  Both modules raise one exception class, \<open>ParsingError\<close>, told apart by its message.
  The decoders of the standard library raise \<open>UnicodeDecodeError\<close>, \<open>struct.unpack\<close>
  raises \<open>struct.error\<close> on a short buffer, \<open>mmap\<close> raises \<open>ValueError\<close> on an empty
  file, \<open>sys.exit\<close> raises \<open>SystemExit\<close> with the exit status, and the interpreter raises
  \<open>RecursionError\<close> when calls nest deeper than its recursion limit.
\<close>

datatype error =
    ParsingError string
  | UnicodeDecodeError
  | StructError
  | ValueError
  | SystemExit nat
  | RecursionError

abbreviation OutOfBounds :: error where
  "OutOfBounds \<equiv> ParsingError ''Requested length exceeds available data size.''"

abbreviation InsufficientHeader :: error where
  "InsufficientHeader \<equiv> ParsingError ''Data length insufficient for header parsing.''"

abbreviation InvalidMagic :: error where
  "InvalidMagic \<equiv> ParsingError ''Invalid magic bytes in header.''"

abbreviation HeaderMismatch :: error where
  "HeaderMismatch \<equiv> ParsingError ''Header offset mismatch.''"

abbreviation InvalidBlockId :: error where
  "InvalidBlockId \<equiv> ParsingError ''Invalid block ID.''"

text \<open>\<open>struct.unpack\<close> with big-endian unsigned formats, on a buffer of the right size.\<close>

definition be_uint :: "bytes \<Rightarrow> nat" where
  "be_uint bs = foldl (\<lambda>acc b. acc * 256 + unat b) 0 bs"

definition unpack_I :: "bytes \<Rightarrow> nat" where
  "unpack_I bs = be_uint bs"

definition unpack_B :: "bytes \<Rightarrow> nat" where
  "unpack_B bs = be_uint bs"

definition unpack_II :: "bytes \<Rightarrow> nat \<times> nat" where
  "unpack_II bs = (be_uint (take 4 bs), be_uint (take 4 (drop 4 bs)))"

definition unpack_III :: "bytes \<Rightarrow> nat \<times> nat \<times> nat" where
  "unpack_III bs =
     (be_uint (take 4 bs), be_uint (take 4 (drop 4 bs)), be_uint (take 4 (drop 8 bs)))"

definition str_of :: "string \<Rightarrow> str" where
  "str_of s = map of_char s"

section \<open>The cursor: \<open>DataBlock\<close>\<close>

record DataBlock =
  data :: bytes
  pos :: nat

definition new_DataBlock :: "bytes \<Rightarrow> DataBlock" where
  "new_DataBlock d = \<lparr>data = d, pos = 0\<rparr>"

text \<open>
  \<open>offset_read(length, offset=None)\<close>: the bounds check comes first, the position moves
  only for a sequential read, and the slice \<open>data[p : p + length]\<close> is returned.
\<close>

definition offset_read :: "nat \<Rightarrow> nat option \<Rightarrow> DataBlock \<Rightarrow> error + (bytes \<times> DataBlock)" where
  "offset_read len offset self =
     (let offset_position = (case offset of None \<Rightarrow> pos self | Some off \<Rightarrow> off) in
      if length (data self) < offset_position + len then Inl OutOfBounds
      else Inr (take len (drop offset_position (data self)),
                if offset = None then self\<lparr>pos := pos self + len\<rparr> else self))"

definition skip :: "nat \<Rightarrow> DataBlock \<Rightarrow> DataBlock" where
  "skip len self = self\<lparr>pos := pos self + len\<rparr>"

section \<open>Address words of the offset table\<close>

text \<open>
  \<open>_block_by_id\<close> decodes an address word with \<open>addr & ~0x1F\<close> and
  \<open>1 << (addr & 0x1F)\<close>.  The complement is taken on Python's unbounded integers.
\<close>

definition addr_offset :: "nat \<Rightarrow> nat" where
  "addr_offset addr = nat (int addr AND NOT 0x1F)"

definition addr_size :: "nat \<Rightarrow> nat" where
  "addr_size addr = push_bit (addr AND 0x1F) 1"

text \<open>
  The repository has no encoder.  The re-encoding below follows the specification's words
  (\<open>offset | log2(size)\<close>); it is the one definition of this section not taken from the code.
\<close>

fun log2 :: "nat \<Rightarrow> nat" where
  "log2 n = (if n < 2 then 0 else Suc (log2 (n div 2)))"

definition spec_encode_addr :: "nat \<Rightarrow> nat \<Rightarrow> nat" where
  "spec_encode_addr offset sz = offset OR log2 sz"

section \<open>Sequencing of fallible steps\<close>

text \<open>An exception raised by a step ends the computation with that exception.\<close>

definition bind :: "error + 'a \<Rightarrow> ('a \<Rightarrow> error + 'b) \<Rightarrow> error + 'b" where
  "bind m f = (case m of Inl e \<Rightarrow> Inl e | Inr x \<Rightarrow> f x)"

section \<open>Codecs of the standard library\<close>

definition is_cont :: "nat \<Rightarrow> bool" where
  "is_cont b = (0x80 \<le> b \<and> b \<le> 0xBF)"

datatype utf8_step = Cp nat nat | Bad nat

definition utf8_first :: "nat \<Rightarrow> nat list \<Rightarrow> utf8_step" where
  "utf8_first b0 rest =
     (if b0 < 0x80 then Cp b0 1
      else if b0 < 0xC2 then Bad 1
      else if b0 < 0xE0 then
        (case rest of
           [] \<Rightarrow> Bad 1
         | b1 # _ \<Rightarrow> if is_cont b1 then Cp ((b0 - 0xC0) * 64 + (b1 - 0x80)) 2 else Bad 1)
      else if b0 < 0xF0 then
        (case rest of
           [] \<Rightarrow> Bad 1
         | b1 # r1 \<Rightarrow>
             if \<not> is_cont b1 \<or> (b0 = 0xE0 \<and> b1 < 0xA0) \<or> (b0 = 0xED \<and> 0xA0 \<le> b1) then Bad 1
             else (case r1 of
                     [] \<Rightarrow> Bad 2
                   | b2 # _ \<Rightarrow>
                       if is_cont b2
                       then Cp ((b0 - 0xE0) * 4096 + (b1 - 0x80) * 64 + (b2 - 0x80)) 3
                       else Bad 2))
      else if b0 < 0xF5 then
        (case rest of
           [] \<Rightarrow> Bad 1
         | b1 # r1 \<Rightarrow>
             if \<not> is_cont b1 \<or> (b0 = 0xF0 \<and> b1 < 0x90) \<or> (b0 = 0xF4 \<and> 0x90 \<le> b1) then Bad 1
             else (case r1 of
                     [] \<Rightarrow> Bad 2
                   | b2 # r2 \<Rightarrow>
                       if \<not> is_cont b2 then Bad 2
                       else (case r2 of
                               [] \<Rightarrow> Bad 3
                             | b3 # _ \<Rightarrow>
                                 if is_cont b3
                                 then Cp ((b0 - 0xF0) * 262144 + (b1 - 0x80) * 4096
                                          + (b2 - 0x80) * 64 + (b3 - 0x80)) 4
                                 else Bad 3)))
      else Bad 1)"

fun utf8_units :: "bool \<Rightarrow> nat list \<Rightarrow> error + str" where
  "utf8_units replace [] = Inr []"
| "utf8_units replace (b0 # rest) =
     (case utf8_first b0 rest of
        Cp c k \<Rightarrow> bind (utf8_units replace (drop (k - 1) rest)) (\<lambda>s. Inr (c # s))
      | Bad k \<Rightarrow>
          if replace then bind (utf8_units replace (drop (k - 1) rest)) (\<lambda>s. Inr (0xFFFD # s))
          else Inl UnicodeDecodeError)"

definition decode_utf8 :: "bytes \<Rightarrow> error + str" where
  "decode_utf8 bs = utf8_units False (map unat bs)"

definition decode_utf8_replace :: "bytes \<Rightarrow> str" where
  "decode_utf8_replace bs = (case utf8_units True (map unat bs) of Inr s \<Rightarrow> s | Inl _ \<Rightarrow> [])"

definition decode_ascii :: "bytes \<Rightarrow> error + str" where
  "decode_ascii bs =
     (if \<forall>b \<in> set bs. unat b < 0x80 then Inr (map unat bs) else Inl UnicodeDecodeError)"

fun utf16_units :: "nat list \<Rightarrow> error + str" where
  "utf16_units [] = Inr []"
| "utf16_units (u # us) =
     (if u < 0xD800 \<or> 0xDFFF < u then bind (utf16_units us) (\<lambda>s. Inr (u # s))
      else if u \<le> 0xDBFF then
        (case us of
           [] \<Rightarrow> Inl UnicodeDecodeError
         | l # us' \<Rightarrow>
             if 0xDC00 \<le> l \<and> l \<le> 0xDFFF
             then bind (utf16_units us')
                    (\<lambda>s. Inr ((0x10000 + (u - 0xD800) * 1024 + (l - 0xDC00)) # s))
             else Inl UnicodeDecodeError)
      else Inl UnicodeDecodeError)"

fun be_pairs :: "bytes \<Rightarrow> (nat list) option" where
  "be_pairs [] = Some []"
| "be_pairs [b] = None"
| "be_pairs (hi # lo # bs) = map_option (\<lambda>us. (unat hi * 256 + unat lo) # us) (be_pairs bs)"

definition decode_utf16be :: "bytes \<Rightarrow> error + str" where
  "decode_utf16be bs =
     (case be_pairs bs of None \<Rightarrow> Inl UnicodeDecodeError | Some us \<Rightarrow> utf16_units us)"

section \<open>The metadata store: \<open>dsstore.py\<close>\<close>

text \<open>
  Every method that moves a cursor takes the cursor and returns it with its result; a method
  of \<open>DataBlock\<close> or \<open>DS_Store\<close> keeps its name, without the leading underscore.
  \<open>DS_Store_init\<close> is the constructor.  \<open>read_offset_words\<close>, \<open>read_toc_entries\<close> and
  \<open>read_filenames\<close> are the list comprehensions and the loop of \<open>_read_offsets\<close>,
  \<open>_read_toc\<close> and \<open>traverse\<close>, by recursion on the count.
\<close>

definition read_string :: "nat \<Rightarrow> DataBlock \<Rightarrow> error + (str \<times> DataBlock)" where
  "read_string len self =
     bind (offset_read (len * 2) None self) (\<lambda>(raw_data, self').
     bind (decode_utf16be raw_data) (\<lambda>decoded_string.
     Inr (decoded_string, self')))"

definition read_structure_type :: "DataBlock \<Rightarrow> error + (str \<times> DataBlock)" where
  "read_structure_type self =
     bind (offset_read 4 None self) (\<lambda>(raw, self').
     bind (decode_utf8 raw) (\<lambda>structure_type.
     Inr (structure_type, self')))"

definition calculate_skip_length :: "str \<Rightarrow> DataBlock \<Rightarrow> error + (nat \<times> DataBlock)" where
  "calculate_skip_length structure_type self =
     (if structure_type = str_of ''bool'' then Inr (1, self)
      else if structure_type = str_of ''long'' then Inr (4, self)
      else if structure_type = str_of ''blob'' then
        bind (offset_read 4 None self) (\<lambda>(raw, self'). Inr (unpack_I raw, self'))
      else Inr (0, self))"

definition read_filename :: "DataBlock \<Rightarrow> error + (str \<times> DataBlock)" where
  "read_filename self =
     bind (offset_read 4 None self) (\<lambda>(raw, s1).
     bind (read_string (unpack_I raw) s1) (\<lambda>(filename, s2).
     bind (offset_read 4 None s2) (\<lambda>(structure_id, s3).
     bind (read_structure_type s3) (\<lambda>(structure_type, s4).
     bind (calculate_skip_length structure_type s4) (\<lambda>(n, s5).
     Inr (filename, skip n s5))))))"

record DS_Store =
  ds_data :: bytes
  block :: DataBlock
  header :: DataBlock
  offsets :: "nat list"
  toc :: "str \<rightharpoonup> nat"

definition read_header :: "bytes \<Rightarrow> DataBlock \<Rightarrow> error + (DataBlock \<times> DataBlock)" where
  "read_header d blk =
     (if length d < 36 then Inl InsufficientHeader
      else
        bind (offset_read 8 None blk) (\<lambda>(raw, b1).
        case unpack_II raw of (magic1, magic2) \<Rightarrow>
          if magic1 \<noteq> 0x1 \<or> magic2 \<noteq> 0x42756431 then Inl InvalidMagic
          else
            bind (offset_read 12 None b1) (\<lambda>(raw, b2).
            case unpack_III raw of (offset, sz, offset2) \<Rightarrow>
              if offset \<noteq> offset2 then Inl HeaderMismatch
              else
                bind (offset_read sz (Some (offset + 4)) (skip 16 b2)) (\<lambda>(root, b3).
                Inr (new_DataBlock root, b3)))))"

fun read_offset_words :: "nat \<Rightarrow> DataBlock \<Rightarrow> error + (nat list \<times> DataBlock)" where
  "read_offset_words 0 blk = Inr ([], blk)"
| "read_offset_words (Suc n) blk =
     bind (offset_read 4 None blk) (\<lambda>(raw, b1).
     bind (read_offset_words n b1) (\<lambda>(ws, b2).
     Inr (unpack_I raw # ws, b2)))"

definition read_offsets :: "DataBlock \<Rightarrow> error + (nat list \<times> DataBlock)" where
  "read_offsets blk =
     bind (offset_read 4 None blk) (\<lambda>(raw, b1).
     read_offset_words (unpack_I raw) (skip 4 b1))"

fun read_toc_entries ::
  "nat \<Rightarrow> (str \<rightharpoonup> nat) \<Rightarrow> DataBlock \<Rightarrow> error + ((str \<rightharpoonup> nat) \<times> DataBlock)" where
  "read_toc_entries 0 t blk = Inr (t, blk)"
| "read_toc_entries (Suc n) t blk =
     bind (offset_read 1 None blk) (\<lambda>(raw, b1).
     bind (offset_read (unpack_B raw) None b1) (\<lambda>(name_raw, b2).
     bind (decode_utf8 name_raw) (\<lambda>toc_name.
     bind (offset_read 4 None b2) (\<lambda>(id_raw, b3).
     read_toc_entries n (t(toc_name \<mapsto> unpack_I id_raw)) b3))))"

definition read_toc :: "DataBlock \<Rightarrow> error + ((str \<rightharpoonup> nat) \<times> DataBlock)" where
  "read_toc blk =
     bind (offset_read 4 None blk) (\<lambda>(raw, b1).
     read_toc_entries (unpack_I raw) Map.empty b1)"

definition DS_Store_init :: "bytes \<Rightarrow> error + DS_Store" where
  "DS_Store_init d =
     bind (read_header d (new_DataBlock d)) (\<lambda>(hdr, b1).
     bind (read_offsets b1) (\<lambda>(offs, b2).
     bind (read_toc b2) (\<lambda>(t, b3).
     Inr \<lparr>ds_data = d, block = b3, header = hdr, offsets = offs, toc = t\<rparr>)))"

definition block_by_id :: "DS_Store \<Rightarrow> nat \<Rightarrow> error + DataBlock" where
  "block_by_id self block_id =
     (if length (offsets self) \<le> block_id then Inl InvalidBlockId
      else
        let addr = offsets self ! block_id;
            offset = addr_offset addr;
            sz = addr_size addr
        in bind (offset_read sz (Some (offset + 4)) (block self)) (\<lambda>(raw, _).
           Inr (new_DataBlock raw)))"

fun read_filenames :: "nat \<Rightarrow> DataBlock \<Rightarrow> error + (str list \<times> DataBlock)" where
  "read_filenames 0 node = Inr ([], node)"
| "read_filenames (Suc n) node =
     bind (read_filename node) (\<lambda>(name, node1).
     bind (read_filenames n node1) (\<lambda>(names, node2).
     Inr (name # names, node2)))"

text \<open>
  \<open>traverse\<close> calls itself once for every block of the chain, each call inside the previous
  one.  The interpreter bounds the nesting of calls: \<open>limit\<close> is the number of nested calls of
  \<open>traverse\<close> (each with the calls it makes) that the recursion limit still admits where
  \<open>traverse\<close> is called; CPython's default leaves somewhat fewer than 1000.  A call that no
  longer fits raises \<open>RecursionError\<close>.
\<close>

fun traverse :: "nat \<Rightarrow> DS_Store \<Rightarrow> nat \<Rightarrow> error + str list" where
  "traverse 0 self block_id = Inl RecursionError"
| "traverse (Suc limit) self block_id =
     bind (block_by_id self block_id) (\<lambda>node.
     bind (offset_read 8 None node) (\<lambda>(raw, node1).
     case unpack_II raw of (next_pointer, count) \<Rightarrow>
       bind (read_filenames count node1) (\<lambda>(filenames, node2).
       if next_pointer > 0
       then bind (traverse limit self next_pointer) (\<lambda>rest. Inr (filenames @ rest))
       else Inr filenames)))"

text \<open>The decode of one block, as \<open>traverse\<close> performs it before following the pointer.\<close>

definition node_records :: "DS_Store \<Rightarrow> nat \<Rightarrow> error + (nat \<times> str list)" where
  "node_records self block_id =
     bind (block_by_id self block_id) (\<lambda>node.
     bind (offset_read 8 None node) (\<lambda>(raw, node1).
     case unpack_II raw of (next_pointer, count) \<Rightarrow>
       bind (read_filenames count node1) (\<lambda>(filenames, node2).
       Inr (next_pointer, filenames))))"

section \<open>The staging index: \<open>gin.py\<close>\<close>

text \<open>
  \<open>mmap_file\<close> is the memory-mapped file \<open>f\<close>: its buffer and its position.  \<open>mm_read\<close> is
  \<open>f.read(n)\<close>, which returns at most \<open>n\<close> bytes, fewer at the end of the buffer, and
  raises nothing.  \<open>read_fmt\<close> is the closure \<open>read(format)\<close> with the size of the format,
  \<open>read_I\<close> and \<open>read_H\<close> its two uses; \<open>check\<close> is \<open>Logger.check\<close>.  \<open>parse_header\<close> and
  \<open>parse_entries\<close> are the header part and the entry loop of \<open>parse\<close>, \<open>parse_entry_fields\<close>
  the fixed-width part of \<open>_parse_entry\<close>, \<open>read_name_loop\<close> the \<open>while\<close> loop of
  \<open>_read_name\<close>, a partial function: \<open>None\<close> where the loop has no end.
\<close>

record mmap_file =
  buf :: bytes
  mpos :: nat

definition mm_read :: "nat \<Rightarrow> mmap_file \<Rightarrow> bytes \<times> mmap_file" where
  "mm_read n f =
     (let bs = take n (drop (mpos f) (buf f)) in (bs, f\<lparr>mpos := mpos f + length bs\<rparr>))"

definition read_fmt :: "nat \<Rightarrow> mmap_file \<Rightarrow> error + (nat \<times> mmap_file)" where
  "read_fmt calcsize f =
     (case mm_read calcsize f of (bs, f') \<Rightarrow>
        if length bs \<noteq> calcsize then Inl StructError else Inr (be_uint bs, f'))"

definition read_I :: "mmap_file \<Rightarrow> error + (nat \<times> mmap_file)" where
  "read_I f = read_fmt 4 f"

definition read_H :: "mmap_file \<Rightarrow> error + (nat \<times> mmap_file)" where
  "read_H f = read_fmt 2 f"

definition check :: "bool \<Rightarrow> error + unit" where
  "check condition = (if \<not> condition then Inl (SystemExit 1) else Inr ())"

definition hex_digit :: "nat \<Rightarrow> nat" where
  "hex_digit d = (if d < 10 then 48 + d else 87 + d)"

definition hexlify :: "bytes \<Rightarrow> str" where
  "hexlify bs = concat (map (\<lambda>b. [hex_digit (unat b div 16), hex_digit (unat b mod 16)]) bs)"

fun oct_digits :: "nat \<Rightarrow> str" where
  "oct_digits n = (if n < 8 then [48 + n] else oct_digits (n div 8) @ [48 + n mod 8])"

definition format_06o :: "nat \<Rightarrow> str" where
  "format_06o n = (let ds = oct_digits n in replicate (6 - length ds) 48 @ ds)"

record index_header =
  h_signature :: str
  h_version :: nat
  h_entries :: nat

record index_entry =
  e_entry :: nat
  e_ctime_seconds :: nat
  e_ctime_nanoseconds :: nat
  e_mtime_seconds :: nat
  e_mtime_nanoseconds :: nat
  e_dev :: nat
  e_ino :: nat
  e_mode :: str
  e_uid :: nat
  e_gid :: nat
  e_size :: nat
  e_sha1 :: str
  e_flags :: nat
  e_name :: str

record index_extension =
  x_signature :: str
  x_size :: nat
  x_data :: str

datatype item =
    Header index_header
  | Entry index_entry
  | Extension index_extension
  | Checksum str

definition parse_header :: "mmap_file \<Rightarrow> error + (index_header \<times> mmap_file)" where
  "parse_header f =
     (case mm_read 4 f of (sig_raw, f1) \<Rightarrow>
        bind (decode_ascii sig_raw) (\<lambda>sig.
        bind (check (sig = str_of ''DIRC'')) (\<lambda>_.
        bind (read_I f1) (\<lambda>(ver, f2).
        bind (check (ver \<in> {2, 3})) (\<lambda>_.
        bind (read_I f2) (\<lambda>(n, f3).
        Inr (\<lparr>h_signature = sig, h_version = ver, h_entries = n\<rparr>, f3)))))))"

partial_function (option) read_name_loop ::
  "mmap_file \<Rightarrow> bytes list \<Rightarrow> (bytes list \<times> mmap_file) option" where
  "read_name_loop f name =
     (case mm_read 1 f of (byte, f') \<Rightarrow>
        if byte \<noteq> [0] then read_name_loop f' (name @ [byte]) else Some (name, f'))"

definition read_name :: "mmap_file \<Rightarrow> nat \<Rightarrow> (str \<times> mmap_file) option" where
  "read_name f flags =
     (let namelen = flags AND 0xFFF in
      if namelen < 0xFFF then
        (case mm_read namelen f of (raw, f') \<Rightarrow> Some (decode_utf8_replace raw, f'))
      else
        Option.bind (read_name_loop f [])
          (\<lambda>(name, f'). Some (decode_utf8_replace (concat name), f')))"

definition parse_entry_fields :: "mmap_file \<Rightarrow> nat \<Rightarrow> error + (index_entry \<times> mmap_file)" where
  "parse_entry_fields f entry_number =
     bind (read_I f) (\<lambda>(ctime_s, f1).
     bind (read_I f1) (\<lambda>(ctime_ns, f2).
     bind (read_I f2) (\<lambda>(mtime_s, f3).
     bind (read_I f3) (\<lambda>(mtime_ns, f4).
     bind (read_I f4) (\<lambda>(dev, f5).
     bind (read_I f5) (\<lambda>(ino, f6).
     bind (read_I f6) (\<lambda>(mode, f7).
     bind (read_I f7) (\<lambda>(uid, f8).
     bind (read_I f8) (\<lambda>(gid, f9).
     bind (read_I f9) (\<lambda>(sz, f10).
     case mm_read 20 f10 of (sha, f11) \<Rightarrow>
     bind (read_H f11) (\<lambda>(flags, f12).
     Inr (\<lparr>e_entry = entry_number,
            e_ctime_seconds = ctime_s, e_ctime_nanoseconds = ctime_ns,
            e_mtime_seconds = mtime_s, e_mtime_nanoseconds = mtime_ns,
            e_dev = dev, e_ino = ino, e_mode = format_06o mode,
            e_uid = uid, e_gid = gid, e_size = sz,
            e_sha1 = hexlify sha, e_flags = flags, e_name = []\<rparr>, f12))))))))))))"

definition parse_entry :: "mmap_file \<Rightarrow> nat \<Rightarrow> (error + (index_entry \<times> mmap_file)) option" where
  "parse_entry f entry_number =
     (case parse_entry_fields f entry_number of
        Inl e \<Rightarrow> Some (Inl e)
      | Inr (entry, f12) \<Rightarrow>
          Option.bind (read_name f12 (e_flags entry))
            (\<lambda>(name, f13). Some (Inr (entry\<lparr>e_name := name\<rparr>, f13))))"

fun parse_entries ::
  "nat \<Rightarrow> nat \<Rightarrow> mmap_file \<Rightarrow> (item list \<times> (error + mmap_file)) option" where
  "parse_entries 0 k f = Some ([], Inr f)"
| "parse_entries (Suc n) k f =
     Option.bind (parse_entry f (k + 1))
       (\<lambda>r. case r of
              Inl e \<Rightarrow> Some ([], Inl e)
            | Inr (entry, f') \<Rightarrow>
                Option.bind (parse_entries n (k + 1) f')
                  (\<lambda>(items, r'). Some (Entry entry # items, r')))"

definition parse_extension :: "mmap_file \<Rightarrow> error + (index_extension \<times> mmap_file)" where
  "parse_extension f =
     (case mm_read 4 f of (sig_raw, f1) \<Rightarrow>
        bind (decode_ascii sig_raw) (\<lambda>sig.
        bind (read_I f1) (\<lambda>(sz, f2).
        case mm_read sz f2 of (payload, f3) \<Rightarrow>
          Inr (\<lparr>x_signature = sig, x_size = sz, x_data = decode_utf8_replace payload\<rparr>, f3))))"

definition parse_checksum :: "mmap_file \<Rightarrow> str \<times> mmap_file" where
  "parse_checksum f = (case mm_read 20 f of (raw, f') \<Rightarrow> (hexlify raw, f'))"

subsection \<open>The extension loop and the whole decode\<close>

text \<open>
  The extension loop \<open>while f.tell() < (len(f) - 20)\<close>.  Every extension that is parsed
  moves the position forward by at least eight bytes, so the loop ends (the termination
  proof follows the facts about one extension).
\<close>

function parse_extensions :: "mmap_file \<Rightarrow> item list \<times> (error + mmap_file)" where
  "parse_extensions f =
     (if int (mpos f) < int (length (buf f)) - 20 then
        (case parse_extension f of
           Inl e \<Rightarrow> ([], Inl e)
         | Inr (extension, f') \<Rightarrow>
             (case parse_extensions f' of (items, r) \<Rightarrow> (Extension extension # items, r)))
      else ([], Inr f))"
  by pat_completeness auto

text \<open>
  The generator \<open>parse\<close>: the records it yields, in order, and the exception that ended
  it, if any.  The result is \<open>None\<close> when the generator never finishes.
\<close>

definition parse :: "bytes \<Rightarrow> (item list \<times> error option) option" where
  "parse d =
     (if d = [] then Some ([], Some ValueError)
      else
        case parse_header \<lparr>buf = d, mpos = 0\<rparr> of
          Inl e \<Rightarrow> Some ([], Some e)
        | Inr (index, f1) \<Rightarrow>
            Option.bind (parse_entries (h_entries index) 0 f1)
              (\<lambda>(entries, r1).
                 case r1 of
                   Inl e \<Rightarrow> Some (Header index # entries, Some e)
                 | Inr f2 \<Rightarrow>
                     (case parse_extensions f2 of
                        (extensions, Inl e) \<Rightarrow> Some (Header index # entries @ extensions, Some e)
                      | (extensions, Inr f3) \<Rightarrow>
                          (case parse_checksum f3 of (checksum, f4) \<Rightarrow>
                             Some (Header index # entries @ extensions @ [Checksum checksum],
                                   None)))))"

section \<open>Statements of the specification, and examples\<close>

text \<open>The 32-bit big-endian word at byte offset \<open>p\<close> of a buffer.\<close>

definition u32_at :: "bytes \<Rightarrow> nat \<Rightarrow> nat" where
  "u32_at d p = unpack_I (take 4 (drop p d))"

text \<open>
  The specification's wording of block resolution: the block is carved from the root-table
  buffer, which construction keeps in \<open>header\<close>.  The code's \<open>block_by_id\<close> above reads
  from \<open>block\<close>, the cursor over the whole input.
\<close>

definition spec_block_by_id :: "DS_Store \<Rightarrow> nat \<Rightarrow> error + DataBlock" where
  "spec_block_by_id self block_id =
     (if length (offsets self) \<le> block_id then Inl InvalidBlockId
      else
        let addr = offsets self ! block_id;
            offset = addr_offset addr;
            sz = addr_size addr
        in bind (offset_read sz (Some (offset + 4)) (header self)) (\<lambda>(raw, _).
           Inr (new_DataBlock raw)))"



text \<open>
  A 52-byte store: the header with a root table of size 0 at offset 0, then, right after the
  36 header bytes, an offset table of one address word (offset 0, size 32) and an empty table
  of contents.
\<close>

definition store_bytes :: bytes where
  "store_bytes =
     [0x00, 0x00, 0x00, 0x01, 0x42, 0x75, 0x64, 0x31,
      0x00, 0x00, 0x00, 0x00, 0x00, 0x00, 0x00, 0x00, 0x00, 0x00, 0x00, 0x00,
      0x00, 0x00, 0x00, 0x00, 0x00, 0x00, 0x00, 0x00,
      0x00, 0x00, 0x00, 0x00, 0x00, 0x00, 0x00, 0x00,
      0x00, 0x00, 0x00, 0x01, 0x00, 0x00, 0x00, 0x00,
      0x00, 0x00, 0x00, 0x05,
      0x00, 0x00, 0x00, 0x00]"

definition store :: DS_Store where
  "store = \<lparr>ds_data = store_bytes, block = \<lparr>data = store_bytes, pos = 52\<rparr>,
            header = \<lparr>data = [], pos = 0\<rparr>, offsets = [5], toc = Map.empty\<rparr>"


text \<open>
  A 36-byte buffer whose only block (address word \<open>0x05\<close>) points to itself: forward
  pointer 1, no record.
\<close>

definition loop_bytes :: bytes where
  "loop_bytes =
     [0x00, 0x00, 0x00, 0x00,
      0x00, 0x00, 0x00, 0x01, 0x00, 0x00, 0x00, 0x00,
      0x00, 0x00, 0x00, 0x00, 0x00, 0x00, 0x00, 0x00, 0x00, 0x00, 0x00, 0x00,
      0x00, 0x00, 0x00, 0x00, 0x00, 0x00, 0x00, 0x00, 0x00, 0x00, 0x00, 0x00]"

definition loop_store :: DS_Store where
  "loop_store = \<lparr>ds_data = loop_bytes, block = \<lparr>data = loop_bytes, pos = 0\<rparr>,
      header = \<lparr>data = [], pos = 0\<rparr>, offsets = [0x00, 0x05], toc = Map.empty\<rparr>"

text \<open>A 36-byte buffer whose only block (address word \<open>0x05\<close>) is all zero.\<close>

definition zero_bytes :: bytes where
  "zero_bytes =
     [0x00, 0x00, 0x00, 0x00,
      0x00, 0x00, 0x00, 0x00, 0x00, 0x00, 0x00, 0x00,
      0x00, 0x00, 0x00, 0x00, 0x00, 0x00, 0x00, 0x00, 0x00, 0x00, 0x00, 0x00,
      0x00, 0x00, 0x00, 0x00, 0x00, 0x00, 0x00, 0x00, 0x00, 0x00, 0x00, 0x00]"

definition zero_store :: DS_Store where
  "zero_store = \<lparr>ds_data = zero_bytes, block = \<lparr>data = zero_bytes, pos = 0\<rparr>,
      header = \<lparr>data = [], pos = 0\<rparr>, offsets = [0x05], toc = Map.empty\<rparr>"

text \<open>
  \<open>SystemExit\<close> derives from \<open>BaseException\<close>, not from \<open>Exception\<close>: a handler
  \<open>except Exception\<close>, as the crawler's batch loop has, lets it through.  A typed parsing
  error is an instance of \<open>ParsingError\<close>.
\<close>

definition is_ParsingError :: "error \<Rightarrow> bool" where
  "is_ParsingError e = (case e of ParsingError msg \<Rightarrow> True | _ \<Rightarrow> False)"

definition caught_by_except_Exception :: "error \<Rightarrow> bool" where
  "caught_by_except_Exception e = (case e of SystemExit status \<Rightarrow> False | _ \<Rightarrow> True)"

text \<open>
  A 29-byte tail of a staging index: one extension \<open>TREE\<close> with a one-byte payload, then
  the 20 bytes of the checksum.
\<close>

definition ext_bytes :: bytes where
  "ext_bytes =
     [0x54, 0x52, 0x45, 0x45, 0x00, 0x00, 0x00, 0x01, 0x41,
      0x01, 0x02, 0x03, 0x04, 0x05, 0x06, 0x07, 0x08, 0x09, 0x0A,
      0x0B, 0x0C, 0x0D, 0x0E, 0x0F, 0x10, 0x11, 0x12, 0x13, 0x14]"

text \<open>
  A 21-byte tail: an extension \<open>TREE\<close> that declares 13 bytes of payload, with nothing after
  the payload.
\<close>

definition overrun_bytes :: bytes where
  "overrun_bytes =
     [0x54, 0x52, 0x45, 0x45, 0x00, 0x00, 0x00, 0x0D,
      0x41, 0x41, 0x41, 0x41, 0x41, 0x41, 0x41, 0x41, 0x41, 0x41, 0x41, 0x41, 0x41]"

text \<open>
  The specification's layout of a record block, stated on the bytes and independently of the
  reading functions.  A filename record is a 32-bit character count, that many UTF-16BE code
  units, a 4-byte structure identifier, a 4-byte type tag and the trailing bytes the tag
  calls for: one for \<open>bool\<close>, four for \<open>long\<close>, a 32-bit length and that many bytes for
  \<open>blob\<close>, none for any other tag.
\<close>

definition spec_trailing_ok :: "str \<Rightarrow> bytes \<Rightarrow> bool" where
  "spec_trailing_ok ty trail =
     (if ty = str_of ''bool'' then length trail = 1
      else if ty = str_of ''long'' then length trail = 4
      else if ty = str_of ''blob'' then
        4 \<le> length trail \<and> length trail = 4 + unpack_I (take 4 trail)
      else trail = [])"

inductive spec_record_layout :: "bytes \<Rightarrow> str \<Rightarrow> bool" where
  spec_record_layoutI:
    "length len4 = 4 \<Longrightarrow> length nm = 2 * unpack_I len4 \<Longrightarrow> decode_utf16be nm = Inr name \<Longrightarrow>
     length sid = 4 \<Longrightarrow> length tag = 4 \<Longrightarrow> decode_utf8 tag = Inr ty \<Longrightarrow> spec_trailing_ok ty trail \<Longrightarrow>
     spec_record_layout (len4 @ nm @ sid @ tag @ trail) name"

inductive spec_records_layout :: "bytes \<Rightarrow> str list \<Rightarrow> bool" where
  records_nil: "spec_records_layout [] []"
| records_cons:
    "spec_record_layout r name \<Longrightarrow> spec_records_layout rs names \<Longrightarrow>
     spec_records_layout (r @ rs) (name # names)"

text \<open>
  A record block is a 32-bit forward pointer, a 32-bit record count, that many filename
  records one after the other, and unused bytes up to the block size.
\<close>

inductive spec_block_layout :: "bytes \<Rightarrow> nat \<Rightarrow> str list \<Rightarrow> bool" where
  spec_block_layoutI:
    "length nxt4 = 4 \<Longrightarrow> length cnt4 = 4 \<Longrightarrow> unpack_I cnt4 = length names \<Longrightarrow>
     spec_records_layout recs names \<Longrightarrow>
     spec_block_layout (nxt4 @ cnt4 @ recs @ pad) (unpack_I nxt4) names"

text \<open>
  The bytes of block \<open>b\<close> as \<open>block_by_id\<close> resolves it: \<open>1 << (a & 0x1F)\<close> bytes at offset
  \<open>(a & ~0x1F) + 4\<close> of the buffer of \<open>block\<close>, for the address word \<open>a\<close> of \<open>b\<close>, when the
  id is in the offset table and the range lies within the buffer.
\<close>

definition block_bytes :: "DS_Store \<Rightarrow> nat \<Rightarrow> bytes option" where
  "block_bytes self b =
     (if length (offsets self) \<le> b then None
      else if length (data (block self))
                < addr_offset (offsets self ! b) + 4 + addr_size (offsets self ! b)
      then None
      else Some (take (addr_size (offsets self ! b))
                   (drop (addr_offset (offsets self ! b) + 4) (data (block self)))))"

text \<open>
  A well-formed record chain from block \<open>b\<close>: the blocks reached by following forward
  pointers, each laid out as a record block, the last one with forward pointer 0.  The chain
  is given by the names of each visited block, in visiting order.
\<close>

inductive spec_chain_layout :: "DS_Store \<Rightarrow> nat \<Rightarrow> str list list \<Rightarrow> bool" for self :: DS_Store where
  chain_last:
    "block_bytes self b = Some bs \<Longrightarrow> spec_block_layout bs 0 names \<Longrightarrow> spec_chain_layout self b [names]"
| chain_next:
    "block_bytes self b = Some bs \<Longrightarrow> spec_block_layout bs nxt names \<Longrightarrow> 0 < nxt \<Longrightarrow>
     spec_chain_layout self nxt rest \<Longrightarrow> spec_chain_layout self b (names # rest)"

text \<open>
  A chain of forward pointers from block \<open>b\<close> that runs on for at least \<open>n\<close> blocks: \<open>n\<close>
  blocks reached by following forward pointers, each laid out as a record block with a
  nonzero forward pointer.  A cycle runs on for every \<open>n\<close>.
\<close>

inductive spec_chain_runs :: "DS_Store \<Rightarrow> nat \<Rightarrow> nat \<Rightarrow> bool" for self :: DS_Store where
  runs_0: "spec_chain_runs self b 0"
| runs_Suc:
    "block_bytes self b = Some bs \<Longrightarrow> spec_block_layout bs nxt names \<Longrightarrow> 0 < nxt \<Longrightarrow>
     spec_chain_runs self nxt n \<Longrightarrow> spec_chain_runs self b (Suc n)"

text \<open>
  A 100-byte buffer with two chained blocks.  Block 1 (address word \<open>0x06\<close>: the 64 bytes
  from byte 4) has forward pointer 2 and two records: \<open>a\<close> of type \<open>bool\<close>, then \<open>bc\<close> of type
  \<open>blob\<close> with a two-byte payload.  Block 2 (address word \<open>0x45\<close>: the 32 bytes from byte 68)
  has forward pointer 0 and one record, \<open>d\<close> of type \<open>long\<close>.
\<close>

definition rec_a :: bytes where
  "rec_a = [0x00, 0x00, 0x00, 0x01] @ [0x00, 0x61] @ [0x00, 0x00, 0x00, 0x07]
            @ [0x62, 0x6F, 0x6F, 0x6C] @ [0x01]"

definition rec_bc :: bytes where
  "rec_bc = [0x00, 0x00, 0x00, 0x02] @ [0x00, 0x62, 0x00, 0x63] @ [0x00, 0x00, 0x00, 0x08]
             @ [0x62, 0x6C, 0x6F, 0x62] @ [0x00, 0x00, 0x00, 0x02, 0xAA, 0xBB]"

definition rec_d :: bytes where
  "rec_d = [0x00, 0x00, 0x00, 0x01] @ [0x00, 0x64] @ [0x00, 0x00, 0x00, 0x09]
            @ [0x6C, 0x6F, 0x6E, 0x67] @ [0x00, 0x00, 0x00, 0x05]"

definition chain_block_1 :: bytes where
  "chain_block_1 = [0x00, 0x00, 0x00, 0x02] @ [0x00, 0x00, 0x00, 0x02] @ (rec_a @ rec_bc)
     @ [0x00, 0x00, 0x00, 0x00, 0x00, 0x00, 0x00, 0x00, 0x00, 0x00,
        0x00, 0x00, 0x00, 0x00, 0x00, 0x00, 0x00, 0x00, 0x00]"

definition chain_block_2 :: bytes where
  "chain_block_2 = [0x00, 0x00, 0x00, 0x00] @ [0x00, 0x00, 0x00, 0x01] @ rec_d
     @ [0x00, 0x00, 0x00, 0x00, 0x00, 0x00]"

definition chain_bytes :: bytes where
  "chain_bytes = [0x00, 0x00, 0x00, 0x00] @ chain_block_1 @ chain_block_2"

definition chain_store :: DS_Store where
  "chain_store = \<lparr>ds_data = chain_bytes, block = \<lparr>data = chain_bytes, pos = 0\<rparr>,
      header = \<lparr>data = [], pos = 0\<rparr>, offsets = [0x00, 0x06, 0x45], toc = Map.empty\<rparr>"






section \<open>Facts about sequencing and the memory-mapped file\<close>

lemma bind_Inl [simp]: "bind (Inl e) f = Inl e"
  by (simp add: bind_def)

lemma bind_Inr [simp]: "bind (Inr x) f = f x"
  by (simp add: bind_def)

lemma bind_eq_Inr:
  "bind m f = Inr y \<longleftrightarrow> (\<exists>x. m = Inr x \<and> f x = Inr y)"
  by (cases m) (simp_all add: bind_def)

lemma mm_read_eq:
  "mm_read n f =
     (take n (drop (mpos f) (buf f)),
      f\<lparr>mpos := mpos f + min n (length (buf f) - mpos f)\<rparr>)"
  by (simp add: mm_read_def Let_def min_def)

lemma read_fmt_Inr:
  "read_fmt k f = Inr (v, f') \<Longrightarrow> 0 < k \<Longrightarrow>
     mpos f + k \<le> length (buf f) \<and> f' = f\<lparr>mpos := mpos f + k\<rparr> \<and>
     v = be_uint (take k (drop (mpos f) (buf f)))"
  by (auto simp add: read_fmt_def mm_read_eq min_def split: if_splits)

lemma parse_extension_Inr:
  assumes "parse_extension f = Inr (x, f')"
  shows "mpos f + 8 \<le> length (buf f) \<and> buf f' = buf f \<and>
         mpos f' = min (mpos f + 8 + x_size x) (length (buf f)) \<and>
         x_size x = be_uint (take 4 (drop (mpos f + 4) (buf f)))"
proof -
  obtain sg where sg: "decode_ascii (take 4 (drop (mpos f) (buf f))) = Inr sg"
    using assms by (cases "decode_ascii (take 4 (drop (mpos f) (buf f)))")
      (simp_all add: parse_extension_def mm_read_eq bind_Inl)
  let ?f1 = "f\<lparr>mpos := mpos f + min 4 (length (buf f) - mpos f)\<rparr>"
  obtain sz f2 where r: "read_I ?f1 = Inr (sz, f2)"
    using assms sg by (cases "read_I ?f1")
      (auto simp add: parse_extension_def mm_read_eq bind_Inl bind_Inr)
  from read_fmt_Inr [OF r [unfolded read_I_def]]
  have a: "mpos ?f1 + 4 \<le> length (buf f)" and f2: "f2 = ?f1\<lparr>mpos := mpos ?f1 + 4\<rparr>"
    and sz: "sz = be_uint (take 4 (drop (mpos ?f1) (buf f)))"
    by simp_all
  from a have p1: "mpos ?f1 = mpos f + 4" by (simp add: min_def split: if_splits)
  from assms sg r have res: "x = \<lparr>x_signature = sg, x_size = sz,
      x_data = decode_utf8_replace (take sz (drop (mpos f2) (buf f2)))\<rparr>"
    and f': "f' = f2\<lparr>mpos := mpos f2 + min sz (length (buf f2) - mpos f2)\<rparr>"
    by (simp_all add: parse_extension_def mm_read_eq bind_Inr)
  from a p1 f2 f' res sz show ?thesis by (auto simp add: min_def)
qed

termination parse_extensions
proof (relation "measure (\<lambda>f. length (buf f) - mpos f)")
  show "wf (measure (\<lambda>f. length (buf f) - mpos f))" by simp
next
  fix f :: mmap_file and x2 x y
  assume g: "int (mpos f) < int (length (buf f)) - 20"
    and "parse_extension f = Inr x2" and "(x, y) = x2"
  then have "parse_extension f = Inr (x, y)" by simp
  from parse_extension_Inr [OF this] g
  show "(y, f) \<in> measure (\<lambda>f. length (buf f) - mpos f)"
    by (auto simp add: min_def)
qed

section \<open>Facts about the cursor\<close>

lemma offset_read_seq:
  "offset_read n None b =
     (if length (data b) < pos b + n then Inl OutOfBounds
      else Inr (take n (drop (pos b) (data b)), b\<lparr>pos := pos b + n\<rparr>))"
  by (simp add: offset_read_def Let_def)

lemma offset_read_abs:
  "offset_read n (Some off) b =
     (if length (data b) < off + n then Inl OutOfBounds
      else Inr (take n (drop off (data b)), b))"
  by (simp add: offset_read_def Let_def)

lemma length_slice: "p + n \<le> length xs \<Longrightarrow> length (take n (drop p xs)) = n"
  by simp

lemma offset_read_seq_fails: "(offset_read n None b = Inl OutOfBounds \<longleftrightarrow> length (data b) < pos b + n)"
  by (simp add: offset_read_seq)

lemma offset_read_abs_fails: "(offset_read n (Some off) b = Inl OutOfBounds \<longleftrightarrow> length (data b) < off + n)"
  by (simp add: offset_read_abs)

lemma offset_read_error: "offset_read n offset b = Inl e \<Longrightarrow> e = OutOfBounds"
  by (cases offset) (simp_all add: offset_read_seq offset_read_abs split: if_splits)

lemma offset_read_seq_result: "offset_read n None b = Inr (v, b') \<Longrightarrow>
      length v = n \<and> v = take n (drop (pos b) (data b)) \<and>
      pos b' = pos b + n \<and> data b' = data b"
  by (auto simp add: offset_read_seq split: if_splits)

lemma offset_read_abs_result: "offset_read n (Some off) b = Inr (v, b') \<Longrightarrow>
      length v = n \<and> v = take n (drop off (data b)) \<and> b' = b"
  by (auto simp add: offset_read_abs split: if_splits)

section \<open>Facts about address words\<close>

lemma and_31_mod: "(a::nat) AND 31 = a mod 32"
proof -
  have "(31::nat) = mask 5" by (simp add: mask_eq_exp_minus_1)
  then have "a AND 31 = take_bit 5 a" by (simp add: take_bit_eq_mask)
  then show ?thesis by (simp add: take_bit_eq_mod)
qed

lemma int_and_not_31: "int a AND NOT 31 = int (a - a mod 32)"
proof -
  have m: "(31::int) = mask 5" by (simp add: mask_eq_exp_minus_1)
  have "int a AND NOT (mask 5) = push_bit 5 (drop_bit 5 (int a))"
    by (rule bit_eqI) (auto simp add: bit_simps)
  also have "\<dots> = int a - take_bit 5 (int a)"
    using bits_ident [of 5 "int a"] by simp
  also have "\<dots> = int a - int a mod 32"
    by (simp add: take_bit_eq_mod)
  also have "\<dots> = int (a - a mod 32)"
    by (simp add: of_nat_diff zmod_int)
  finally show ?thesis using m by simp
qed

lemma addr_offset_arith: "addr_offset a = a - a mod 32"
  by (simp only: addr_offset_def int_and_not_31 nat_int)

lemma addr_size_arith: "addr_size a = 2 ^ (a mod 32)"
  by (simp add: addr_size_def and_31_mod push_bit_eq_mult)

lemma log2_power: "log2 (2 ^ k) = k"
  by (induction k) simp_all

lemma or_low_bits:
  fixes a :: nat
  shows "(a - a mod 32) OR (a mod 32) = a"
proof -
  have "a - a mod 32 = push_bit 5 (drop_bit 5 a)"
    using bits_ident [of 5 a] by (simp add: take_bit_eq_mod)
  moreover have "a mod 32 = take_bit 5 a"
    by (simp add: take_bit_eq_mod)
  moreover have "push_bit 5 (drop_bit 5 a) OR take_bit 5 a = a"
    by (rule bit_eqI) (auto simp add: bit_simps)
  ultimately show ?thesis by simp
qed

section \<open>Claims about the cursor and the address words\<close>

text \<open>
  Claim C6.  For every cursor (buffer and position) and every length \<open>n\<close>: a sequential
  read fails with the out-of-bounds error exactly when \<open>position + n\<close> exceeds the buffer
  length, a read at an absolute offset fails exactly when \<open>offset + n\<close> does; a read that
  does not fail returns exactly \<open>n\<close> bytes (the slice at the position read from), a
  sequential read moves the position forward by exactly \<open>n\<close>, and a read at an absolute
  offset leaves the cursor as it was.
\<close>

theorem C6_offset_read_bounds:
  "(offset_read n None b = Inl OutOfBounds \<longleftrightarrow> length (data b) < pos b + n) \<and>
   (offset_read n (Some off) b = Inl OutOfBounds \<longleftrightarrow> length (data b) < off + n) \<and>
   (\<forall>e. offset_read n offset b = Inl e \<longrightarrow> e = OutOfBounds) \<and>
   (\<forall>v b'. offset_read n None b = Inr (v, b') \<longrightarrow>
      length v = n \<and> v = take n (drop (pos b) (data b)) \<and>
      pos b' = pos b + n \<and> data b' = data b) \<and>
   (\<forall>v b'. offset_read n (Some off) b = Inr (v, b') \<longrightarrow>
      length v = n \<and> v = take n (drop off (data b)) \<and> b' = b)"
proof -
  have 3: "\<forall>e. offset_read n offset b = Inl e \<longrightarrow> e = OutOfBounds"
    using offset_read_error by blast
  have 4: "\<forall>v b'. offset_read n None b = Inr (v, b') \<longrightarrow>
      length v = n \<and> v = take n (drop (pos b) (data b)) \<and>
      pos b' = pos b + n \<and> data b' = data b"
    using offset_read_seq_result by blast
  have 5: "\<forall>v b'. offset_read n (Some off) b = Inr (v, b') \<longrightarrow>
      length v = n \<and> v = take n (drop off (data b)) \<and> b' = b"
    using offset_read_abs_result by blast
  show ?thesis
    by (rule conjI [OF offset_read_seq_fails conjI [OF offset_read_abs_fails conjI [OF 3 conjI [OF 4 5]]]])
qed

text \<open>
  The theorem at a three-byte buffer with the position at 1: reading three bytes is out of
  bounds, reading two returns them.
\<close>

theorem C6_offset_read_bounds_witness:
  "length (data \<lparr>data = [1, 2, 3], pos = 1\<rparr>) < pos \<lparr>data = [1, 2, 3], pos = 1\<rparr> + 3 \<and>
   offset_read 3 None \<lparr>data = [1, 2, 3], pos = 1\<rparr> = Inl OutOfBounds \<and>
   offset_read 2 None \<lparr>data = [1, 2, 3], pos = 1\<rparr> = Inr ([2, 3], \<lparr>data = [1, 2, 3], pos = 3\<rparr>) \<and>
   length [2, 3 :: byte] = 2"
proof -
  let ?b = "\<lparr>data = [1, 2, 3 :: byte], pos = 1\<rparr>"
  have h: "length (data ?b) < pos ?b + 3" by simp
  have r: "offset_read 2 None ?b = Inr ([2, 3], \<lparr>data = [1, 2, 3], pos = 3\<rparr>)"
    by (simp add: offset_read_seq)
  from C6_offset_read_bounds [of 3 ?b 0 None, THEN conjunct1] h
  have e: "offset_read 3 None ?b = Inl OutOfBounds" by (rule iffD2)
  from C6_offset_read_bounds [of 2 ?b 0 None] r
  have l: "length [2, 3 :: byte] = 2" by blast
  from h e r l show ?thesis by (intro conjI)
qed

text \<open>
  Claim C9.  For every address word \<open>a\<close>, the decoded size is \<open>1 << (a & 0x1F)\<close>, that is
  two to the power of the low five bits, the decoded offset is \<open>a & ~0x1F\<close>, that is \<open>a\<close>
  with its low five bits cleared, and re-encoding the decoded pair as
  \<open>offset | log2(size)\<close> gives \<open>a\<close> back.
\<close>

theorem C9_addr_roundtrip:
  "addr_size a = 2 ^ (a mod 32) \<and>
   addr_offset a = a - a mod 32 \<and>
   spec_encode_addr (addr_offset a) (addr_size a) = a"
  by (simp add: spec_encode_addr_def addr_offset_arith addr_size_arith log2_power or_low_bits
      del: log2.simps)

text \<open>
  Claim C10.  \<open>skip(n)\<close> adds \<open>n\<close> to the position, whatever the buffer length, and has no
  failing branch, so the position after a skip can lie beyond the end of the buffer; a
  sequential read that succeeds leaves the position within the buffer; and every
  sequential read from a position beyond the end fails with the out-of-bounds error.
\<close>

theorem C10_skip_unchecked:
  "skip n b = b\<lparr>pos := pos b + n\<rparr> \<and>
   (length (data b) < pos b + n \<longrightarrow> length (data (skip n b)) < pos (skip n b)) \<and>
   (\<forall>v b'. offset_read m None b = Inr (v, b') \<longrightarrow> pos b' \<le> length (data b')) \<and>
   (length (data b) < pos b \<longrightarrow> offset_read m None b = Inl OutOfBounds)"
  by (auto simp add: skip_def offset_read_seq split: if_splits)

text \<open>
  The theorem at a three-byte buffer: skipping five bytes from position 1 gives position 6,
  from where even a read of no bytes fails.
\<close>

theorem C10_skip_unchecked_witness:
  "skip 5 \<lparr>data = [1, 2, 3], pos = 1\<rparr> = \<lparr>data = [1, 2, 3], pos = 6\<rparr> \<and>
   offset_read 0 None (skip 5 \<lparr>data = [1, 2, 3], pos = 1\<rparr>) = Inl OutOfBounds \<and>
   offset_read 2 None \<lparr>data = [1, 2, 3], pos = 1\<rparr> = Inr ([2, 3], \<lparr>data = [1, 2, 3], pos = 3\<rparr>)"
  using C10_skip_unchecked [of 5 "\<lparr>data = [1, 2, 3], pos = 1\<rparr>" 0]
    C10_skip_unchecked [of 0 "skip 5 \<lparr>data = [1, 2, 3], pos = 1\<rparr>" 0]
  by (simp add: skip_def offset_read_seq)

section \<open>Facts about construction and block resolution\<close>

lemma take_drop_take:
  "n + k \<le> m \<Longrightarrow> take n (drop k (take m xs)) = take n (drop k xs)"
  by (simp add: drop_take min_def)

lemma unpack_II_slice: "unpack_II (take 8 d) = (u32_at d 0, u32_at d 4)"
  by (simp add: unpack_II_def u32_at_def unpack_I_def drop_take)

lemma unpack_III_slice:
  "unpack_III (take 12 (drop 8 d)) = (u32_at d 8, u32_at d 12, u32_at d 16)"
  by (simp add: unpack_III_def u32_at_def unpack_I_def drop_take)

lemma read_header_eq:
  "read_header d \<lparr>data = d, pos = 0\<rparr> =
     (if length d < 36 then Inl InsufficientHeader
      else if u32_at d 0 \<noteq> 1 \<or> u32_at d 4 \<noteq> 0x42756431 then Inl InvalidMagic
      else if u32_at d 8 \<noteq> u32_at d 16 then Inl HeaderMismatch
      else if length d < u32_at d 8 + 4 + u32_at d 12 then Inl OutOfBounds
      else Inr (new_DataBlock (take (u32_at d 12) (drop (u32_at d 8 + 4) d)),
                \<lparr>data = d, pos = 36\<rparr>))"
proof (cases "length d < 36")
  case True
  then show ?thesis by (simp add: read_header_def)
next
  case False
  then have r8: "offset_read 8 None \<lparr>data = d, pos = 0\<rparr> = Inr (take 8 d, \<lparr>data = d, pos = 8\<rparr>)"
    by (simp add: offset_read_seq)
  from False have r12: "offset_read 12 None \<lparr>data = d, pos = 8\<rparr> =
      Inr (take 12 (drop 8 d), \<lparr>data = d, pos = 20\<rparr>)"
    by (simp add: offset_read_seq)
  show ?thesis
  proof (cases "u32_at d 0 \<noteq> 1 \<or> u32_at d 4 \<noteq> 0x42756431")
    case True
    with False show ?thesis
      by (auto simp add: read_header_def r8 unpack_II_slice)
  next
    case magic: False
    show ?thesis
    proof (cases "u32_at d 8 \<noteq> u32_at d 16")
      case True
      with False magic show ?thesis
        by (simp add: read_header_def r8 unpack_II_slice r12 unpack_III_slice)
    next
      case same: False
      with False magic show ?thesis
        by (simp add: read_header_def r8 unpack_II_slice r12 unpack_III_slice skip_def
            offset_read_abs add.commute)
    qed
  qed
qed

lemma read_offset_words_Inr:
  "read_offset_words n b = Inr (ws, b') \<Longrightarrow>
     length ws = n \<and> b' = b\<lparr>pos := pos b + 4 * n\<rparr> \<and>
     (\<forall>i<n. ws ! i = u32_at (data b) (pos b + 4 * i))"
proof (induction n arbitrary: b ws b')
  case 0
  then show ?case by simp
next
  case (Suc n)
  from Suc.prems obtain raw b1 where r: "offset_read 4 None b = Inr (raw, b1)"
    by (cases "offset_read 4 None b") auto
  from Suc.prems r obtain ws' b2 where w: "read_offset_words n b1 = Inr (ws', b2)"
    and res: "ws = unpack_I raw # ws'" "b' = b2"
    by (cases "read_offset_words n b1") auto
  from offset_read_seq_result [OF r]
  have raw: "raw = take 4 (drop (pos b) (data b))" and p1: "pos b1 = pos b + 4"
    and d1: "data b1 = data b" by simp_all
  from r have b1: "b1 = b\<lparr>pos := pos b + 4\<rparr>"
    by (simp add: offset_read_seq split: if_splits)
  from Suc.IH [OF w] have len: "length ws' = n" and b2: "b2 = b1\<lparr>pos := pos b1 + 4 * n\<rparr>"
    and nth: "\<forall>i<n. ws' ! i = u32_at (data b1) (pos b1 + 4 * i)" by simp_all
  have "\<forall>i<Suc n. ws ! i = u32_at (data b) (pos b + 4 * i)"
  proof (intro allI impI)
    fix i assume "i < Suc n"
    then show "ws ! i = u32_at (data b) (pos b + 4 * i)"
      using nth res raw p1 d1 by (cases i) (simp_all add: u32_at_def add.assoc)
  qed
  with len b2 b1 res show ?case by simp
qed

lemma read_offsets_Inr:
  assumes "read_offsets b = Inr (ws, b')"
  shows "length ws = u32_at (data b) (pos b) \<and>
         b' = b\<lparr>pos := pos b + 8 + 4 * length ws\<rparr> \<and>
         (\<forall>i<length ws. ws ! i = u32_at (data b) (pos b + 8 + 4 * i))"
proof -
  from assms obtain raw b1 where r: "offset_read 4 None b = Inr (raw, b1)"
    and w: "read_offset_words (unpack_I raw) (skip 4 b1) = Inr (ws, b')"
    by (cases "offset_read 4 None b") (auto simp add: read_offsets_def)
  from r have raw: "raw = take 4 (drop (pos b) (data b))" and b1: "b1 = b\<lparr>pos := pos b + 4\<rparr>"
    by (simp_all add: offset_read_seq split: if_splits)
  from read_offset_words_Inr [OF w] raw b1 show ?thesis
    by (simp add: skip_def u32_at_def add.assoc)
qed

lemma read_toc_entries_data:
  "read_toc_entries n t b = Inr (t', b') \<Longrightarrow> data b' = data b"
proof (induction n arbitrary: t b)
  case 0
  then show ?case by simp
next
  case (Suc n)
  from Suc.prems obtain raw b1 where r1: "offset_read 1 None b = Inr (raw, b1)"
    by (cases "offset_read 1 None b") auto
  from Suc.prems r1 obtain name_raw b2 where
    r2: "offset_read (unpack_B raw) None b1 = Inr (name_raw, b2)"
    by (cases "offset_read (unpack_B raw) None b1") auto
  from Suc.prems r1 r2 obtain toc_name where dn: "decode_utf8 name_raw = Inr toc_name"
    by (cases "decode_utf8 name_raw") auto
  from Suc.prems r1 r2 dn obtain id_raw b3 where r3: "offset_read 4 None b2 = Inr (id_raw, b3)"
    by (cases "offset_read 4 None b2") auto
  from Suc.prems r1 r2 dn r3
  have "read_toc_entries n (t(toc_name \<mapsto> unpack_I id_raw)) b3 = Inr (t', b')" by simp
  from Suc.IH [OF this] offset_read_seq_result [OF r1] offset_read_seq_result [OF r2]
    offset_read_seq_result [OF r3]
  show ?case by simp
qed

lemma read_toc_data: "read_toc b = Inr (t, b') \<Longrightarrow> data b' = data b"
proof -
  assume a: "read_toc b = Inr (t, b')"
  then obtain raw b1 where r: "offset_read 4 None b = Inr (raw, b1)"
    and e: "read_toc_entries (unpack_I raw) Map.empty b1 = Inr (t, b')"
    by (cases "offset_read 4 None b") (auto simp add: read_toc_def)
  from read_toc_entries_data [OF e] offset_read_seq_result [OF r] show ?thesis by simp
qed

lemma DS_Store_init_Inr:
  assumes "DS_Store_init d = Inr self"
  shows "36 \<le> length d"
    and "u32_at d 0 = 1 \<and> u32_at d 4 = 0x42756431"
    and "u32_at d 8 = u32_at d 16"
    and "u32_at d 8 + 4 + u32_at d 12 \<le> length d"
    and "header self = new_DataBlock (take (u32_at d 12) (drop (u32_at d 8 + 4) d))"
    and "ds_data self = d"
    and "data (block self) = d"
    and "length (offsets self) = u32_at d 36"
    and "\<forall>i<u32_at d 36. offsets self ! i = u32_at d (44 + 4 * i)"
    and "read_toc \<lparr>data = d, pos = 44 + 4 * u32_at d 36\<rparr> = Inr (toc self, block self)"
proof -
  from assms obtain hdr b1 where h: "read_header d \<lparr>data = d, pos = 0\<rparr> = Inr (hdr, b1)"
    by (cases "read_header d \<lparr>data = d, pos = 0\<rparr>")
      (auto simp add: DS_Store_init_def new_DataBlock_def)
  from assms h obtain offs b2 where o: "read_offsets b1 = Inr (offs, b2)"
    by (cases "read_offsets b1") (auto simp add: DS_Store_init_def new_DataBlock_def)
  from assms h o obtain t b3 where t: "read_toc b2 = Inr (t, b3)"
    by (cases "read_toc b2") (auto simp add: DS_Store_init_def new_DataBlock_def)
  from assms h o t
  have self: "self = \<lparr>ds_data = d, block = b3, header = hdr, offsets = offs, toc = t\<rparr>"
    by (simp add: DS_Store_init_def new_DataBlock_def)
  from h show len: "36 \<le> length d"
    by (simp add: read_header_eq split: if_splits)
  from h show magic: "u32_at d 0 = 1 \<and> u32_at d 4 = 0x42756431"
    by (simp add: read_header_eq split: if_splits)
  from h show same: "u32_at d 8 = u32_at d 16"
    by (simp add: read_header_eq split: if_splits)
  from h show fits: "u32_at d 8 + 4 + u32_at d 12 \<le> length d"
    by (simp add: read_header_eq split: if_splits)
  from h have hdr: "hdr = new_DataBlock (take (u32_at d 12) (drop (u32_at d 8 + 4) d))"
    and b1: "b1 = \<lparr>data = d, pos = 36\<rparr>"
    by (simp_all add: read_header_eq split: if_splits)
  from hdr self show "header self = new_DataBlock (take (u32_at d 12) (drop (u32_at d 8 + 4) d))"
    by simp
  from self show "ds_data self = d" by simp
  from read_offsets_Inr [OF o] b1
  have ol: "length offs = u32_at d 36"
    and b2: "b2 = \<lparr>data = d, pos = 44 + 4 * length offs\<rparr>"
    and on: "\<forall>i<length offs. offs ! i = u32_at d (44 + 4 * i)"
    by simp_all
  from read_toc_data [OF t] b2 self show "data (block self) = d" by simp
  from ol self show "length (offsets self) = u32_at d 36" by simp
  from on ol self show "\<forall>i<u32_at d 36. offsets self ! i = u32_at d (44 + 4 * i)" by simp
  from t b2 ol self show "read_toc \<lparr>data = d, pos = 44 + 4 * u32_at d 36\<rparr> = Inr (toc self, block self)"
    by simp
qed

lemma length_store_bytes: "length store_bytes = 52"
  by (simp add: store_bytes_def)

lemma store_bytes_words:
  "u32_at store_bytes 0 = 1" "u32_at store_bytes 4 = 0x42756431"
  "u32_at store_bytes 8 = 0" "u32_at store_bytes 12 = 0" "u32_at store_bytes 16 = 0"
  "u32_at store_bytes 36 = 1" "u32_at store_bytes 44 = 5" "u32_at store_bytes 48 = 0"
  by (simp_all add: u32_at_def unpack_I_def be_uint_def store_bytes_def)

lemma read_offset_words_eq:
  "read_offset_words (Suc n) b =
     (if length (data b) < pos b + 4 then Inl OutOfBounds
      else bind (read_offset_words n (b\<lparr>pos := pos b + 4\<rparr>))
             (\<lambda>(ws, b2). Inr (u32_at (data b) (pos b) # ws, b2)))"
  by (simp add: offset_read_seq u32_at_def)

lemma read_offsets_eq:
  "read_offsets b =
     (if length (data b) < pos b + 4 then Inl OutOfBounds
      else read_offset_words (u32_at (data b) (pos b)) (b\<lparr>pos := pos b + 8\<rparr>))"
  by (simp add: read_offsets_def offset_read_seq u32_at_def skip_def add.commute)

lemma read_toc_eq:
  "read_toc b =
     (if length (data b) < pos b + 4 then Inl OutOfBounds
      else read_toc_entries (u32_at (data b) (pos b)) Map.empty (b\<lparr>pos := pos b + 4\<rparr>))"
  by (simp add: read_toc_def offset_read_seq u32_at_def)

lemma store_parsed: "DS_Store_init store_bytes = Inr store"
  by (simp add: DS_Store_init_def new_DataBlock_def read_header_eq read_offsets_eq
      read_offset_words_eq read_toc_eq store_bytes_words length_store_bytes store_def
      del: read_offset_words.simps(2))

lemma block_by_id_eq:
  "block_by_id self i =
     (if length (offsets self) \<le> i then Inl InvalidBlockId
      else if length (data (block self))
                < addr_offset (offsets self ! i) + 4 + addr_size (offsets self ! i)
      then Inl OutOfBounds
      else Inr (new_DataBlock (take (addr_size (offsets self ! i))
                  (drop (addr_offset (offsets self ! i) + 4) (data (block self))))))"
  by (simp add: block_by_id_def Let_def offset_read_abs)

lemma spec_block_by_id_eq:
  "spec_block_by_id self i =
     (if length (offsets self) \<le> i then Inl InvalidBlockId
      else if length (data (header self))
                < addr_offset (offsets self ! i) + 4 + addr_size (offsets self ! i)
      then Inl OutOfBounds
      else Inr (new_DataBlock (take (addr_size (offsets self ! i))
                  (drop (addr_offset (offsets self ! i) + 4) (data (header self))))))"
  by (simp add: spec_block_by_id_def Let_def offset_read_abs)



section \<open>Claims about the metadata store\<close>

text \<open>
  Claim C1, as amended.  For every store parsed from an input \<open>d\<close> and every block id:
  \<open>block_by_id\<close> fails with the invalid-block-id error exactly when the id is not below the
  length of the offset table; otherwise, with \<open>a\<close> the address word of the id, it reads
  \<open>1 << (a & 0x1F)\<close> bytes at byte offset \<open>(a & ~0x1F) + 4\<close> of the whole input \<open>d\<close> (not of
  the root-table buffer): it fails with the out-of-bounds error when that range leaves \<open>d\<close>,
  and otherwise returns a fresh cursor over exactly that many bytes.
\<close>

theorem C1_block_by_id:
  assumes "DS_Store_init d = Inr self"
  shows "(block_by_id self i = Inl InvalidBlockId \<longleftrightarrow> length (offsets self) \<le> i) \<and>
    (i < length (offsets self) \<longrightarrow>
       block_by_id self i =
         (if length d < addr_offset (offsets self ! i) + 4 + addr_size (offsets self ! i)
          then Inl OutOfBounds
          else Inr (new_DataBlock (take (addr_size (offsets self ! i))
                      (drop (addr_offset (offsets self ! i) + 4) d)))) \<and>
       (addr_offset (offsets self ! i) + 4 + addr_size (offsets self ! i) \<le> length d \<longrightarrow>
          length (take (addr_size (offsets self ! i))
                    (drop (addr_offset (offsets self ! i) + 4) d))
            = addr_size (offsets self ! i)))"
proof -
  from DS_Store_init_Inr(7) [OF assms] have d: "data (block self) = d" .
  have 1: "block_by_id self i = Inl InvalidBlockId \<longleftrightarrow> length (offsets self) \<le> i"
    by (simp add: block_by_id_eq)
  have 2: "i < length (offsets self) \<longrightarrow>
       block_by_id self i =
         (if length d < addr_offset (offsets self ! i) + 4 + addr_size (offsets self ! i)
          then Inl OutOfBounds
          else Inr (new_DataBlock (take (addr_size (offsets self ! i))
                      (drop (addr_offset (offsets self ! i) + 4) d))))"
    by (simp add: block_by_id_eq d)
  have 3: "addr_offset (offsets self ! i) + 4 + addr_size (offsets self ! i) \<le> length d \<longrightarrow>
          length (take (addr_size (offsets self ! i))
                    (drop (addr_offset (offsets self ! i) + 4) d))
            = addr_size (offsets self ! i)"
    by simp
  from 1 2 3 show ?thesis by blast
qed

text \<open>The theorem at the 52-byte store: id 1 is invalid, id 0 resolves to bytes 4 to 36.\<close>

theorem C1_block_by_id_witness:
  "DS_Store_init store_bytes = Inr store \<and>
   block_by_id store 1 = Inl InvalidBlockId \<and>
   block_by_id store 0 = Inr (new_DataBlock (take 32 (drop 4 store_bytes)))"
proof -
  have a: "addr_offset 5 = 0" "addr_size 5 = 32"
    by (simp_all add: addr_offset_arith addr_size_arith)
  from C1_block_by_id [OF store_parsed, of 1]
  have 1: "block_by_id store 1 = Inl InvalidBlockId" by (simp add: store_def)
  from C1_block_by_id [OF store_parsed, of 0]
  have 2: "block_by_id store 0 = Inr (new_DataBlock (take 32 (drop 4 store_bytes)))"
    by (simp add: store_def a length_store_bytes)
  from store_parsed 1 2 show ?thesis by simp
qed

text \<open>
  Claim C1 as stated fails: in the 52-byte store the root-table buffer is empty, so carving
  block 0 from it is out of bounds, while the code returns the 32 bytes of the input.
\<close>

theorem C1_root_table_counterexample:
  "DS_Store_init store_bytes = Inr store \<and>
   block_by_id store 0 = Inr (new_DataBlock (take 32 (drop 4 store_bytes))) \<and>
   spec_block_by_id store 0 = Inl OutOfBounds"
proof -
  have a: "addr_offset 5 = 0" "addr_size 5 = 32"
    by (simp_all add: addr_offset_arith addr_size_arith)
  have 1: "block_by_id store 0 = Inr (new_DataBlock (take 32 (drop 4 store_bytes)))"
    by (simp add: block_by_id_eq store_def a length_store_bytes)
  have 2: "spec_block_by_id store 0 = Inl OutOfBounds"
    by (simp add: spec_block_by_id_eq store_def a)
  from store_parsed 1 2 show ?thesis by simp
qed

section \<open>Facts about name reading\<close>

lemma and_4095_mod: "(a::nat) AND 0xFFF = a mod 4096"
proof -
  have "(0xFFF::nat) = mask 12" by (simp add: mask_eq_exp_minus_1)
  then have "a AND 0xFFF = take_bit 12 a" by (simp add: take_bit_eq_mask)
  then show ?thesis by (simp add: take_bit_eq_mod)
qed

lemma read_name_loop_unfold:
  "read_name_loop f name =
     (if take 1 (drop (mpos f) (buf f)) \<noteq> [0]
      then read_name_loop (f\<lparr>mpos := mpos f + min 1 (length (buf f) - mpos f)\<rparr>)
             (name @ [take 1 (drop (mpos f) (buf f))])
      else Some (name, f\<lparr>mpos := mpos f + min 1 (length (buf f) - mpos f)\<rparr>))"
  by (subst read_name_loop.simps) (simp add: mm_read_eq)

lemma drop_Cons_next: "drop n xs = y # ys \<Longrightarrow> drop (Suc n) xs = ys"
  by (metis drop_Suc tl_drop list.sel(3))

lemma read_name_loop_Some:
  "drop (mpos f) (buf f) = pre @ 0 # rest \<Longrightarrow> 0 \<notin> set pre \<Longrightarrow>
     read_name_loop f acc =
       Some (acc @ map (\<lambda>b. [b]) pre, f\<lparr>mpos := mpos f + length pre + 1\<rparr>)"
proof (induction pre arbitrary: f acc)
  case Nil
  then have d: "drop (mpos f) (buf f) = 0 # rest" by simp
  then have "mpos f < length (buf f)" by (cases "mpos f < length (buf f)") simp_all
  then have m: "min (Suc 0) (length (buf f) - mpos f) = Suc 0" by simp
  from d show ?case
    by (subst read_name_loop_unfold) (simp add: m)
next
  case (Cons p pre)
  then have d: "drop (mpos f) (buf f) = p # (pre @ 0 # rest)" and p: "p \<noteq> 0"
    and pre: "0 \<notin> set pre" by simp_all
  from d have lt: "mpos f < length (buf f)" by (cases "mpos f < length (buf f)") simp_all
  let ?f' = "f\<lparr>mpos := mpos f + 1\<rparr>"
  from drop_Cons_next [OF d] have "drop (mpos ?f') (buf ?f') = pre @ 0 # rest" by simp
  from Cons.IH [OF this pre, of "acc @ [[p]]"]
  have "read_name_loop ?f' (acc @ [[p]]) =
      Some (acc @ map (\<lambda>b. [b]) (p # pre), f\<lparr>mpos := mpos f + length (p # pre) + 1\<rparr>)"
    by simp
  moreover from lt have m: "min (Suc 0) (length (buf f) - mpos f) = Suc 0" by simp
  ultimately show ?case using d p
    by (subst read_name_loop_unfold) (simp add: m)
qed

lemma read_name_loop_needs_zero:
  assumes "read_name_loop f acc = Some r"
  shows "0 \<in> set (drop (mpos f) (buf f))"
proof (rule read_name_loop.raw_induct
    [where P = "\<lambda>f name y. 0 \<in> set (drop (mpos f) (buf f))", OF _ assms])
  fix loop :: "mmap_file \<Rightarrow> bytes list \<Rightarrow> (bytes list \<times> mmap_file) option"
    and f :: mmap_file and name :: "bytes list" and y :: "bytes list \<times> mmap_file"
  assume IH: "\<And>f name y. loop f name = Some y \<Longrightarrow> 0 \<in> set (drop (mpos f) (buf f))"
    and eq: "(case mm_read 1 f of
               (byte, f') \<Rightarrow> if byte \<noteq> [0] then loop f' (name @ [byte]) else Some (name, f'))
             = Some y"
  show "0 \<in> set (drop (mpos f) (buf f))"
  proof (cases "take 1 (drop (mpos f) (buf f)) = [0]")
    case True
    then obtain z zs where "drop (mpos f) (buf f) = z # zs"
      by (cases "drop (mpos f) (buf f)") auto
    with True show ?thesis by simp
  next
    case False
    with eq have
      "loop (f\<lparr>mpos := mpos f + min 1 (length (buf f) - mpos f)\<rparr>)
         (name @ [take 1 (drop (mpos f) (buf f))]) = Some y"
      by (simp add: mm_read_eq)
    from IH [OF this]
    have "0 \<in> set (drop (mpos f + min 1 (length (buf f) - mpos f)) (buf f))" by simp
    then show ?thesis
      using set_drop_subset_set_drop [of "mpos f" "mpos f + min 1 (length (buf f) - mpos f)" "buf f"]
      by auto
  qed
qed

lemma read_name_short:
  "flags AND 0xFFF < 0xFFF \<Longrightarrow>
     read_name f flags =
       Some (decode_utf8_replace (take (flags AND 0xFFF) (drop (mpos f) (buf f))),
             f\<lparr>mpos := mpos f + min (flags AND 0xFFF) (length (buf f) - mpos f)\<rparr>)"
  by (simp add: read_name_def Let_def mm_read_eq)

lemma concat_singletons: "concat (map (\<lambda>b. [b]) xs) = xs"
  by (induction xs) simp_all

lemma read_name_long:
  assumes "flags AND 0xFFF = 0xFFF" and "drop (mpos f) (buf f) = pre @ 0 # rest"
    and "0 \<notin> set pre"
  shows "read_name f flags =
           Some (decode_utf8_replace pre, f\<lparr>mpos := mpos f + length pre + 1\<rparr>)"
  using assms(1) read_name_loop_Some [OF assms(2,3), of "[]"]
  by (simp add: read_name_def Let_def concat_singletons)

lemma read_name_terminates:
  assumes "flags AND 0xFFF < 0xFFF \<or> 0 \<in> set (drop (mpos f) (buf f))"
  shows "read_name f flags \<noteq> None"
proof (cases "flags AND 0xFFF < 0xFFF")
  case True
  then show ?thesis by (simp add: read_name_short)
next
  case False
  with assms have "0 \<in> set (drop (mpos f) (buf f))" by simp
  then obtain pre rest where d: "drop (mpos f) (buf f) = pre @ 0 # rest" and p: "0 \<notin> set pre"
    by (auto dest: split_list_first)
  from False read_name_loop_Some [OF d p, of "[]"] show ?thesis
    by (simp add: read_name_def Let_def)
qed

lemma read_name_diverges:
  assumes "\<not> flags AND 0xFFF < 0xFFF" and "0 \<notin> set (drop (mpos f) (buf f))"
  shows "read_name f flags = None"
proof -
  have "read_name_loop f [] = None"
    using read_name_loop_needs_zero [of f "[]"] assms(2) by (cases "read_name_loop f []") auto
  with assms(1) show ?thesis by (simp add: read_name_def Let_def)
qed

lemma decode_ab: "decode_utf8_replace [0x61, 0x62] = [0x61, 0x62]"
  "decode_utf8_replace [0x61] = [0x61]"
  by (simp_all add: decode_utf8_replace_def utf8_first_def)

section \<open>Claims about name reading\<close>

text \<open>
  Claim C8, as amended.  The name length is the low 12 bits of the flags word.  If it is
  below \<open>0xFFF\<close>, the name is decoded (UTF-8 with replacement) from the next bytes of the
  buffer, as many as the name length or as many as remain if fewer remain, and the position
  advances past them; these are exactly name-length bytes whenever that many remain.  If it
  equals \<open>0xFFF\<close> and a zero byte lies at or after the position, the name is decoded from the
  bytes before the first zero byte, and the position advances past that zero byte.
\<close>

theorem C8_read_name:
  "flags AND 0xFFF = flags mod 4096 \<and>
   (flags AND 0xFFF < 0xFFF \<longrightarrow>
      read_name f flags =
        Some (decode_utf8_replace (take (flags AND 0xFFF) (drop (mpos f) (buf f))),
              f\<lparr>mpos := mpos f + min (flags AND 0xFFF) (length (buf f) - mpos f)\<rparr>) \<and>
      (mpos f + (flags AND 0xFFF) \<le> length (buf f) \<longrightarrow>
         length (take (flags AND 0xFFF) (drop (mpos f) (buf f))) = flags AND 0xFFF)) \<and>
   (flags AND 0xFFF = 0xFFF \<and> drop (mpos f) (buf f) = pre @ 0 # rest \<and> 0 \<notin> set pre \<longrightarrow>
      read_name f flags =
        Some (decode_utf8_replace pre, f\<lparr>mpos := mpos f + length pre + 1\<rparr>))"
proof (intro conjI impI)
  show "flags AND 0xFFF = flags mod 4096" by (rule and_4095_mod)
next
  assume "flags AND 0xFFF < 0xFFF"
  then show "read_name f flags =
        Some (decode_utf8_replace (take (flags AND 0xFFF) (drop (mpos f) (buf f))),
              f\<lparr>mpos := mpos f + min (flags AND 0xFFF) (length (buf f) - mpos f)\<rparr>)"
    by (rule read_name_short)
next
  assume "mpos f + (flags AND 0xFFF) \<le> length (buf f)"
  then show "length (take (flags AND 0xFFF) (drop (mpos f) (buf f))) = flags AND 0xFFF"
    by simp
next
  assume "flags AND 0xFFF = 0xFFF \<and> drop (mpos f) (buf f) = pre @ 0 # rest \<and> 0 \<notin> set pre"
  then show "read_name f flags =
        Some (decode_utf8_replace pre, f\<lparr>mpos := mpos f + length pre + 1\<rparr>)"
    by (blast intro: read_name_long)
qed

text \<open>
  The theorem at a two-byte name with name length 2, and at a name of length \<open>0xFFF\<close>
  ended by a zero byte.
\<close>

theorem C8_read_name_witness:
  "(2::nat) AND 0xFFF < 0xFFF \<and>
   read_name \<lparr>buf = [0x61, 0x62, 0x63], mpos = 0\<rparr> 2 =
     Some ([0x61, 0x62], \<lparr>buf = [0x61, 0x62, 0x63], mpos = 2\<rparr>) \<and>
   read_name \<lparr>buf = [0x61, 0x00, 0x63], mpos = 0\<rparr> 0xFFF =
     Some ([0x61], \<lparr>buf = [0x61, 0x00, 0x63], mpos = 2\<rparr>)"
proof -
  have a: "(2::nat) AND 0xFFF = 2" "(0xFFF::nat) AND 0xFFF = 0xFFF"
    by (simp_all add: and_4095_mod)
  then have lt: "(2::nat) AND 0xFFF < 0xFFF" by simp
  from C8_read_name [of 2 "\<lparr>buf = [0x61, 0x62, 0x63], mpos = 0\<rparr>" "[]" "[]"] lt
  have "read_name \<lparr>buf = [0x61, 0x62, 0x63], mpos = 0\<rparr> 2 =
      Some (decode_utf8_replace (take (2 AND 0xFFF)
              (drop (mpos \<lparr>buf = [0x61, 0x62, 0x63], mpos = 0\<rparr>)
                 (buf \<lparr>buf = [0x61, 0x62, 0x63 :: byte], mpos = 0\<rparr>))),
            \<lparr>buf = [0x61, 0x62, 0x63], mpos = 0\<rparr>
              \<lparr>mpos := mpos \<lparr>buf = [0x61, 0x62, 0x63 :: byte], mpos = 0\<rparr> +
                 min (2 AND 0xFFF)
                   (length (buf \<lparr>buf = [0x61, 0x62, 0x63 :: byte], mpos = 0\<rparr>)
                    - mpos \<lparr>buf = [0x61, 0x62, 0x63 :: byte], mpos = 0\<rparr>)\<rparr>)"
    by blast
  then have 1: "read_name \<lparr>buf = [0x61, 0x62, 0x63], mpos = 0\<rparr> 2 =
     Some ([0x61, 0x62], \<lparr>buf = [0x61, 0x62, 0x63], mpos = 2\<rparr>)"
    by (simp add: a decode_ab)
  have d: "drop (mpos \<lparr>buf = [0x61, 0x00, 0x63], mpos = 0\<rparr>)
             (buf \<lparr>buf = [0x61, 0x00, 0x63 :: byte], mpos = 0\<rparr>) = [0x61] @ 0 # [0x63]"
    and nz: "(0::byte) \<notin> set [0x61]"
    by simp_all
  from C8_read_name [of "0xFFF" "\<lparr>buf = [0x61, 0x00, 0x63], mpos = 0\<rparr>" "[0x61]" "[0x63]"]
    a(2) d nz
  have "read_name \<lparr>buf = [0x61, 0x00, 0x63], mpos = 0\<rparr> 0xFFF =
      Some (decode_utf8_replace [0x61],
            \<lparr>buf = [0x61, 0x00, 0x63], mpos = 0\<rparr>
              \<lparr>mpos := mpos \<lparr>buf = [0x61, 0x00, 0x63 :: byte], mpos = 0\<rparr> + length [0x61 :: byte] + 1\<rparr>)"
    by blast
  then have 2: "read_name \<lparr>buf = [0x61, 0x00, 0x63], mpos = 0\<rparr> 0xFFF =
     Some ([0x61], \<lparr>buf = [0x61, 0x00, 0x63], mpos = 2\<rparr>)"
    by (simp add: decode_ab)
  from lt 1 2 show ?thesis by (intro conjI)
qed

text \<open>
  Claim C8 as stated fails: with name length 5 and two bytes left in the buffer, the name is
  decoded from those two bytes and the position advances by two, not by five.
\<close>

theorem C8_short_read_counterexample:
  "(5::nat) AND 0xFFF = 5 \<and>
   read_name \<lparr>buf = [0x61, 0x62], mpos = 0\<rparr> 5 =
     Some ([0x61, 0x62], \<lparr>buf = [0x61, 0x62], mpos = 2\<rparr>)"
proof -
  have a: "(5::nat) AND 0xFFF = 5" by (simp add: and_4095_mod)
  then have "(5::nat) AND 0xFFF < 0xFFF" by simp
  from read_name_short [OF this, of "\<lparr>buf = [0x61, 0x62], mpos = 0\<rparr>"]
  have "read_name \<lparr>buf = [0x61, 0x62], mpos = 0\<rparr> 5 =
     Some ([0x61, 0x62], \<lparr>buf = [0x61, 0x62], mpos = 2\<rparr>)"
    by (simp add: a decode_ab)
  with a show ?thesis by simp
qed

section \<open>Facts about the staging-index header and extensions\<close>

lemma parse_header_bad_signature:
  assumes "decode_ascii (take 4 d) = Inr s" and "s \<noteq> str_of ''DIRC''"
  shows "parse_header \<lparr>buf = d, mpos = 0\<rparr> = Inl (SystemExit 1)"
  using assms by (simp add: parse_header_def mm_read_eq check_def)

lemma parse_header_bad_version:
  assumes "decode_ascii (take 4 d) = Inr (str_of ''DIRC'')" and "8 \<le> length d"
    and "u32_at d 4 \<notin> {2, 3}"
  shows "parse_header \<lparr>buf = d, mpos = 0\<rparr> = Inl (SystemExit 1)"
proof -
  from assms(2) have "read_I \<lparr>buf = d, mpos = 4\<rparr> = Inr (u32_at d 4, \<lparr>buf = d, mpos = 8\<rparr>)"
    by (auto simp add: read_I_def read_fmt_def mm_read_eq u32_at_def unpack_I_def min_def)
  with assms show ?thesis
    by (simp add: parse_header_def mm_read_eq check_def min_def)
qed

lemma parse_header_failure:
  "d \<noteq> [] \<Longrightarrow> parse_header \<lparr>buf = d, mpos = 0\<rparr> = Inl e \<Longrightarrow> parse d = Some ([], Some e)"
  by (simp add: parse_def)

lemma extension_guard:
  "(int (mpos f) < int (length (buf f)) - 20) = (21 \<le> length (buf f) - mpos f)"
  by arith

lemma parse_extensions_unfold:
  "parse_extensions f =
     (if 21 \<le> length (buf f) - mpos f then
        (case parse_extension f of
           Inl e \<Rightarrow> ([], Inl e)
         | Inr (extension, f') \<Rightarrow>
             (case parse_extensions f' of (items, r) \<Rightarrow> (Extension extension # items, r)))
      else ([], Inr f))"
  by (simp only: extension_guard [symmetric]) (rule parse_extensions.simps)

lemma ext_parsed:
  "parse_extension \<lparr>buf = ext_bytes, mpos = 0\<rparr> =
     Inr (\<lparr>x_signature = str_of ''TREE'', x_size = 1, x_data = [0x41]\<rparr>,
          \<lparr>buf = ext_bytes, mpos = 9\<rparr>)"
  by (simp add: parse_extension_def mm_read_eq decode_ascii_def read_I_def read_fmt_def
      be_uint_def decode_utf8_replace_def utf8_first_def str_of_def ext_bytes_def)

lemma overrun_parsed:
  "parse_extension \<lparr>buf = overrun_bytes, mpos = 0\<rparr> =
     Inr (\<lparr>x_signature = str_of ''TREE'', x_size = 13,
            x_data = [0x41, 0x41, 0x41, 0x41, 0x41, 0x41, 0x41, 0x41, 0x41, 0x41, 0x41, 0x41, 0x41]\<rparr>,
          \<lparr>buf = overrun_bytes, mpos = 21\<rparr>)"
  by (simp add: parse_extension_def mm_read_eq decode_ascii_def read_I_def read_fmt_def
      be_uint_def decode_utf8_replace_def utf8_first_def str_of_def overrun_bytes_def)

section \<open>Claims about the staging index\<close>

text \<open>
  Claim C3, as amended.  For every non-empty staging-index input whose 4-byte signature is
  ASCII text other than \<open>DIRC\<close>, and for every input with signature \<open>DIRC\<close> whose 32-bit
  version is present and is neither 2 nor 3, the decoder yields no record and ends in
  \<open>sys.exit(1)\<close>: the failure is \<open>SystemExit\<close> with status 1, which is not a typed parsing
  error and which a handler \<open>except Exception\<close> does not catch.
\<close>

theorem C3_header_failure:
  "(d \<noteq> [] \<and> decode_ascii (take 4 d) = Inr s \<and> s \<noteq> str_of ''DIRC'' \<longrightarrow>
      parse d = Some ([], Some (SystemExit 1))) \<and>
   (decode_ascii (take 4 d) = Inr (str_of ''DIRC'') \<and> 8 \<le> length d \<and> u32_at d 4 \<notin> {2, 3} \<longrightarrow>
      parse d = Some ([], Some (SystemExit 1))) \<and>
   \<not> is_ParsingError (SystemExit 1) \<and>
   \<not> caught_by_except_Exception (SystemExit 1)"
proof (intro conjI impI)
  assume a: "d \<noteq> [] \<and> decode_ascii (take 4 d) = Inr s \<and> s \<noteq> str_of ''DIRC''"
  then have "parse_header \<lparr>buf = d, mpos = 0\<rparr> = Inl (SystemExit 1)"
    by (blast intro: parse_header_bad_signature)
  with a show "parse d = Some ([], Some (SystemExit 1))"
    by (blast intro: parse_header_failure)
next
  assume a: "decode_ascii (take 4 d) = Inr (str_of ''DIRC'') \<and> 8 \<le> length d \<and>
    u32_at d 4 \<notin> {2, 3}"
  then have "parse_header \<lparr>buf = d, mpos = 0\<rparr> = Inl (SystemExit 1)"
    by (blast intro: parse_header_bad_version)
  moreover from a have "d \<noteq> []" by auto
  ultimately show "parse d = Some ([], Some (SystemExit 1))"
    by (rule parse_header_failure [rotated])
next
  show "\<not> is_ParsingError (SystemExit 1)" by (simp add: is_ParsingError_def)
next
  show "\<not> caught_by_except_Exception (SystemExit 1)"
    by (simp add: caught_by_except_Exception_def)
qed

text \<open>The theorem at the signature \<open>DIRC\<close> followed by version 4.\<close>

theorem C3_header_failure_witness:
  "decode_ascii (take 4 [0x44, 0x49, 0x52, 0x43, 0x00, 0x00, 0x00, 0x04]) = Inr (str_of ''DIRC'') \<and>
   u32_at [0x44, 0x49, 0x52, 0x43, 0x00, 0x00, 0x00, 0x04] 4 = 4 \<and>
   parse [0x44, 0x49, 0x52, 0x43, 0x00, 0x00, 0x00, 0x04] = Some ([], Some (SystemExit 1))"
proof -
  let ?d = "[0x44, 0x49, 0x52, 0x43, 0x00, 0x00, 0x00, 0x04] :: bytes"
  have s: "decode_ascii (take 4 ?d) = Inr (str_of ''DIRC'')"
    by (simp add: decode_ascii_def str_of_def)
  have v: "u32_at ?d 4 = 4"
    by (simp add: u32_at_def unpack_I_def be_uint_def)
  have l: "8 \<le> length ?d" by simp
  from v have nv: "u32_at ?d 4 \<notin> {2, 3}" by simp
  from C3_header_failure [of ?d "[]"] s l nv
  have "parse ?d = Some ([], Some (SystemExit 1))" by blast
  with s v show ?thesis by (intro conjI)
qed

text \<open>
  Claim C3 as stated fails: on the four bytes \<open>XXXX\<close> the decoder ends in \<open>sys.exit(1)\<close>,
  which is not a typed parsing error and is not caught by \<open>except Exception\<close>.
\<close>

theorem C3_exit_counterexample:
  "parse [0x58, 0x58, 0x58, 0x58] = Some ([], Some (SystemExit 1)) \<and>
   \<not> is_ParsingError (SystemExit 1) \<and>
   \<not> caught_by_except_Exception (SystemExit 1)"
proof -
  have "decode_ascii (take 4 [0x58, 0x58, 0x58, 0x58]) = Inr [0x58, 0x58, 0x58, 0x58]"
    by (simp add: decode_ascii_def)
  moreover have "[0x58, 0x58, 0x58, 0x58] \<noteq> str_of ''DIRC''"
    by (simp add: str_of_def)
  ultimately have "parse_header \<lparr>buf = [0x58, 0x58, 0x58, 0x58], mpos = 0\<rparr> = Inl (SystemExit 1)"
    by (rule parse_header_bad_signature)
  then have "parse [0x58, 0x58, 0x58, 0x58] = Some ([], Some (SystemExit 1))"
    by (simp add: parse_def)
  then show ?thesis
    by (simp add: is_ParsingError_def caught_by_except_Exception_def)
qed

text \<open>
  Claim C5, as amended.  The extension loop runs its body exactly while at least 21 bytes
  remain after the current position.  An extension read consumes the bytes from the
  position up to the declared end of the extension (position + 8 + size), or up to the end
  of the buffer if the declared end lies beyond it; so it leaves the final 20 bytes untouched
  exactly when the declared end is at least 20 bytes before the end of the buffer.
\<close>

theorem C5_extension_loop:
  "parse_extensions f =
     (if 21 \<le> length (buf f) - mpos f then
        (case parse_extension f of
           Inl e \<Rightarrow> ([], Inl e)
         | Inr (extension, f') \<Rightarrow>
             (case parse_extensions f' of (items, r) \<Rightarrow> (Extension extension # items, r)))
      else ([], Inr f)) \<and>
   (parse_extension f = Inr (x, f') \<longrightarrow>
      buf f' = buf f \<and>
      mpos f' = min (mpos f + 8 + x_size x) (length (buf f)) \<and>
      (mpos f' + 20 \<le> length (buf f) \<longleftrightarrow> mpos f + 8 + x_size x + 20 \<le> length (buf f)))"
proof (intro conjI impI)
  show "parse_extensions f =
     (if 21 \<le> length (buf f) - mpos f then
        (case parse_extension f of
           Inl e \<Rightarrow> ([], Inl e)
         | Inr (extension, f') \<Rightarrow>
             (case parse_extensions f' of (items, r) \<Rightarrow> (Extension extension # items, r)))
      else ([], Inr f))"
    by (rule parse_extensions_unfold)
next
  assume a: "parse_extension f = Inr (x, f')"
  from parse_extension_Inr [OF a] show "buf f' = buf f" by simp
  from parse_extension_Inr [OF a]
  show m: "mpos f' = min (mpos f + 8 + x_size x) (length (buf f))" by simp
  show "mpos f' + 20 \<le> length (buf f) \<longleftrightarrow> mpos f + 8 + x_size x + 20 \<le> length (buf f)"
    unfolding m by (auto simp add: min_def)
qed

text \<open>The theorem at the 29-byte tail: the extension ends where the checksum begins.\<close>

theorem C5_extension_loop_witness:
  "parse_extension \<lparr>buf = ext_bytes, mpos = 0\<rparr> =
     Inr (\<lparr>x_signature = str_of ''TREE'', x_size = 1, x_data = [0x41]\<rparr>,
          \<lparr>buf = ext_bytes, mpos = 9\<rparr>) \<and>
   mpos \<lparr>buf = ext_bytes, mpos = 9\<rparr> + 20 \<le> length (buf \<lparr>buf = ext_bytes, mpos = 0\<rparr>) \<and>
   parse_extensions \<lparr>buf = ext_bytes, mpos = 0\<rparr> =
     ([Extension \<lparr>x_signature = str_of ''TREE'', x_size = 1, x_data = [0x41]\<rparr>],
      Inr \<lparr>buf = ext_bytes, mpos = 9\<rparr>)"
proof -
  have l: "length ext_bytes = 29" by (simp add: ext_bytes_def)
  from C5_extension_loop [of "\<lparr>buf = ext_bytes, mpos = 0\<rparr>"
      "\<lparr>x_signature = str_of ''TREE'', x_size = 1, x_data = [0x41]\<rparr>"
      "\<lparr>buf = ext_bytes, mpos = 9\<rparr>"] ext_parsed
  have "(mpos \<lparr>buf = ext_bytes, mpos = 9\<rparr> + 20 \<le> length (buf \<lparr>buf = ext_bytes, mpos = 0\<rparr>))
      = (mpos \<lparr>buf = ext_bytes, mpos = 0\<rparr> + 8 +
           x_size \<lparr>x_signature = str_of ''TREE'', x_size = 1, x_data = [0x41]\<rparr> + 20
         \<le> length (buf \<lparr>buf = ext_bytes, mpos = 0\<rparr>))"
    by blast
  then have 1: "mpos \<lparr>buf = ext_bytes, mpos = 9\<rparr> + 20 \<le> length (buf \<lparr>buf = ext_bytes, mpos = 0\<rparr>)"
    by (simp add: l)
  have 2: "parse_extensions \<lparr>buf = ext_bytes, mpos = 9\<rparr> = ([], Inr \<lparr>buf = ext_bytes, mpos = 9\<rparr>)"
    by (subst parse_extensions_unfold) (simp add: l)
  have 3: "parse_extensions \<lparr>buf = ext_bytes, mpos = 0\<rparr> =
     ([Extension \<lparr>x_signature = str_of ''TREE'', x_size = 1, x_data = [0x41]\<rparr>],
      Inr \<lparr>buf = ext_bytes, mpos = 9\<rparr>)"
    by (subst parse_extensions_unfold) (simp add: l ext_parsed 2)
  from ext_parsed 1 3 show ?thesis by (intro conjI)
qed

text \<open>
  Claim C5 as stated fails: on the 21-byte tail the loop runs (21 bytes remain) and the
  extension read consumes all 21 bytes, the final 20 included.
\<close>

theorem C5_overrun_counterexample:
  "length overrun_bytes = 21 \<and>
   parse_extensions \<lparr>buf = overrun_bytes, mpos = 0\<rparr> =
     ([Extension \<lparr>x_signature = str_of ''TREE'', x_size = 13,
         x_data = [0x41, 0x41, 0x41, 0x41, 0x41, 0x41, 0x41, 0x41, 0x41, 0x41, 0x41, 0x41, 0x41]\<rparr>],
      Inr \<lparr>buf = overrun_bytes, mpos = 21\<rparr>)"
proof -
  have l: "length overrun_bytes = 21" by (simp add: overrun_bytes_def)
  have 2: "parse_extensions \<lparr>buf = overrun_bytes, mpos = 21\<rparr> =
      ([], Inr \<lparr>buf = overrun_bytes, mpos = 21\<rparr>)"
    by (subst parse_extensions_unfold) (simp add: l)
  have 3: "parse_extensions \<lparr>buf = overrun_bytes, mpos = 0\<rparr> =
     ([Extension \<lparr>x_signature = str_of ''TREE'', x_size = 13,
         x_data = [0x41, 0x41, 0x41, 0x41, 0x41, 0x41, 0x41, 0x41, 0x41, 0x41, 0x41, 0x41, 0x41]\<rparr>],
      Inr \<lparr>buf = overrun_bytes, mpos = 21\<rparr>)"
    by (subst parse_extensions_unfold) (simp add: l overrun_parsed 2)
  from l 3 show ?thesis by (intro conjI)
qed

section \<open>Facts about traversal\<close>

lemma read_prefix:
  assumes "p \<le> length d" and "drop p d = xs @ rest"
  shows "offset_read (length xs) None \<lparr>data = d, pos = p\<rparr> =
           Inr (xs, \<lparr>data = d, pos = p + length xs\<rparr>)"
    and "p + length xs \<le> length d"
    and "drop (p + length xs) d = rest"
proof -
  have "length (drop p d) = length xs + length rest" by (simp add: assms(2))
  with assms(1) show le: "p + length xs \<le> length d" by simp
  have "take (length xs) (drop p d) = xs" by (simp add: assms(2))
  with le show "offset_read (length xs) None \<lparr>data = d, pos = p\<rparr> =
           Inr (xs, \<lparr>data = d, pos = p + length xs\<rparr>)"
    by (simp add: offset_read_seq)
  have "drop (p + length xs) d = drop (length xs) (drop p d)" by (simp add: add.commute)
  then show "drop (p + length xs) d = rest" by (simp add: assms(2))
qed

lemma tags_distinct:
  "str_of ''blob'' \<noteq> str_of ''bool''" "str_of ''blob'' \<noteq> str_of ''long''"
  "str_of ''long'' \<noteq> str_of ''bool''"
  by (simp_all add: str_of_def)

lemma calculate_skip_length_layout:
  assumes "p \<le> length d" and "drop p d = trail @ rest" and "spec_trailing_ok ty trail"
  shows "bind (calculate_skip_length ty \<lparr>data = d, pos = p\<rparr>) (\<lambda>(n, s). Inr (x, skip n s)) =
           Inr (x, \<lparr>data = d, pos = p + length trail\<rparr>)"
proof (cases "ty = str_of ''blob''")
  case True
  with assms(3) have l: "4 \<le> length trail" and n: "length trail = 4 + unpack_I (take 4 trail)"
    by (simp_all add: spec_trailing_ok_def tags_distinct)
  from l have t: "trail = take 4 trail @ drop 4 trail" and l4: "length (take 4 trail) = 4"
    by simp_all
  from assms(2) t have "drop p d = take 4 trail @ (drop 4 trail @ rest)" by (metis append.assoc)
  from read_prefix(1) [OF assms(1) this] l4
  have "offset_read 4 None \<lparr>data = d, pos = p\<rparr> = Inr (take 4 trail, \<lparr>data = d, pos = p + 4\<rparr>)"
    by simp
  with True n show ?thesis
    by (simp add: calculate_skip_length_def skip_def tags_distinct)
next
  case False
  with assms(3) show ?thesis
    by (auto simp add: calculate_skip_length_def spec_trailing_ok_def skip_def)
qed

lemma read_filename_layout:
  assumes p: "p \<le> length d" and d: "drop p d = r @ rest" and r: "spec_record_layout r name"
  shows "read_filename \<lparr>data = d, pos = p\<rparr> = Inr (name, \<lparr>data = d, pos = p + length r\<rparr>)"
  using r
proof (cases rule: spec_record_layout.cases)
  case (spec_record_layoutI len4 nm sid tag ty trail)
  from d spec_record_layoutI(1)
  have d0: "drop p d = len4 @ (nm @ sid @ tag @ trail @ rest)" by simp
  note s1 = read_prefix [OF p d0]
  note s2 = read_prefix [OF s1(2) s1(3)]
  have d2: "drop (p + length len4 + length nm) d = sid @ (tag @ trail @ rest)"
    using s2(3) by simp
  note s3 = read_prefix [OF s2(2) d2]
  have d3: "drop (p + length len4 + length nm + length sid) d = tag @ (trail @ rest)"
    using s3(3) by simp
  note s4 = read_prefix [OF s3(2) d3]
  have rs: "read_string (unpack_I len4) \<lparr>data = d, pos = p + 4\<rparr> =
      Inr (name, \<lparr>data = d, pos = p + 4 + length nm\<rparr>)"
    using s2(1) spec_record_layoutI(2,3,4) by (simp add: read_string_def mult.commute)
  have rt: "read_structure_type \<lparr>data = d, pos = p + 4 + length nm + 4\<rparr> =
      Inr (ty, \<lparr>data = d, pos = p + 4 + length nm + 4 + 4\<rparr>)"
    using s4(1) spec_record_layoutI(2,5,6,7) by (simp add: read_structure_type_def)
  have sk: "bind (calculate_skip_length ty \<lparr>data = d, pos = p + 4 + length nm + 4 + 4\<rparr>)
        (\<lambda>(n, s). Inr (name, skip n s)) =
      Inr (name, \<lparr>data = d, pos = p + 4 + length nm + 4 + 4 + length trail\<rparr>)"
    using calculate_skip_length_layout [OF s4(2) s4(3) spec_record_layoutI(8)] spec_record_layoutI(2,5,6)
    by simp
  from s1(1) s3(1) rs rt sk spec_record_layoutI(1,2,5,6) show ?thesis
    by (simp add: read_filename_def add.assoc)
qed

lemma read_filenames_layout:
  "spec_records_layout rs names \<Longrightarrow> p \<le> length d \<Longrightarrow> drop p d = rs @ rest \<Longrightarrow>
     read_filenames (length names) \<lparr>data = d, pos = p\<rparr> =
       Inr (names, \<lparr>data = d, pos = p + length rs\<rparr>)"
proof (induction arbitrary: p rest rule: spec_records_layout.induct)
  case records_nil
  then show ?case by simp
next
  case (records_cons r name rs names)
  from records_cons.prems(2) have d: "drop p d = r @ (rs @ rest)" by simp
  note f = read_filename_layout [OF records_cons.prems(1) d records_cons.hyps(1)]
  note s = read_prefix [OF records_cons.prems(1) d]
  from records_cons.IH [OF s(2) s(3)] f show ?case
    by (simp add: add.assoc)
qed

lemma block_by_id_bytes:
  "block_bytes self b = Some bs \<Longrightarrow> block_by_id self b = Inr \<lparr>data = bs, pos = 0\<rparr>"
  by (simp add: block_bytes_def block_by_id_eq new_DataBlock_def split: if_splits)

lemma node_records_layout:
  assumes "block_bytes self b = Some bs" and "spec_block_layout bs nxt names"
  shows "node_records self b = Inr (nxt, names)"
  using assms(2)
proof (cases rule: spec_block_layout.cases)
  case (spec_block_layoutI nxt4 cnt4 recs pad)
  have d0: "drop 0 bs = (nxt4 @ cnt4) @ (recs @ pad)" using spec_block_layoutI(1) by simp
  note s1 = read_prefix [OF _ d0, simplified]
  from spec_block_layoutI(3,4) have l8: "length nxt4 + length cnt4 = 8" by simp
  have h: "offset_read 8 None \<lparr>data = bs, pos = 0\<rparr> = Inr (nxt4 @ cnt4, \<lparr>data = bs, pos = 8\<rparr>)"
    using s1(1) l8 by simp
  have u: "unpack_II (nxt4 @ cnt4) = (unpack_I nxt4, unpack_I cnt4)"
    using spec_block_layoutI(3,4) by (simp add: unpack_II_def unpack_I_def)
  have "read_filenames (length names) \<lparr>data = bs, pos = 8\<rparr> =
      Inr (names, \<lparr>data = bs, pos = 8 + length recs\<rparr>)"
    using read_filenames_layout [OF spec_block_layoutI(6), of 8 bs pad] s1(2,3) l8 by simp
  with h u spec_block_layoutI(2,5) block_by_id_bytes [OF assms(1)] show ?thesis
    by (simp add: node_records_def)
qed

lemma traverse_Suc:
  "traverse (Suc limit) self b =
     bind (node_records self b) (\<lambda>(nxt, fs).
       if 0 < nxt then bind (traverse limit self nxt) (\<lambda>rest. Inr (fs @ rest)) else Inr fs)"
  by (simp add: node_records_def bind_def split: sum.split prod.split)

lemma traverse_chain_layout:
  "spec_chain_layout self b nss \<Longrightarrow> length nss \<le> limit \<Longrightarrow> traverse limit self b = Inr (concat nss)"
proof (induction arbitrary: limit rule: spec_chain_layout.induct)
  case (chain_last b bs names)
  then obtain l where l: "limit = Suc l" by (cases limit) auto
  from node_records_layout [OF chain_last.hyps] show ?case
    unfolding l by (simp add: traverse_Suc del: traverse.simps)
next
  case (chain_next b bs nxt names rest)
  then obtain l where l: "limit = Suc l" by (cases limit) auto
  with chain_next.prems have "length rest \<le> l" by simp
  from chain_next.IH [OF this] node_records_layout [OF chain_next.hyps(1,2)] chain_next.hyps(3)
  show ?case
    unfolding l by (simp add: traverse_Suc del: traverse.simps)
qed

lemma traverse_chain_overflow:
  "spec_chain_layout self b nss \<Longrightarrow> limit < length nss \<Longrightarrow> traverse limit self b = Inl RecursionError"
proof (induction arbitrary: limit rule: spec_chain_layout.induct)
  case (chain_last b bs names)
  then show ?case by simp
next
  case (chain_next b bs nxt names rest)
  show ?case
  proof (cases limit)
    case 0
    then show ?thesis by simp
  next
    case (Suc l)
    with chain_next.prems have "l < length rest" by simp
    from chain_next.IH [OF this] node_records_layout [OF chain_next.hyps(1,2)] chain_next.hyps(3)
    show ?thesis
      unfolding Suc by (simp add: traverse_Suc del: traverse.simps)
  qed
qed

lemma addr_words: "addr_offset 0x05 = 0" "addr_size 0x05 = 32"
  "addr_offset 0x06 = 0" "addr_size 0x06 = 64"
  "addr_offset 0x45 = 64" "addr_size 0x45 = 32"
  by (simp_all add: addr_offset_arith addr_size_arith)

lemmas eval_layout =
  unpack_I_def be_uint_def decode_utf16be_def decode_utf8_def utf8_first_def str_of_def
  spec_trailing_ok_def

lemma rec_a_layout: "spec_record_layout rec_a [0x61]"
  unfolding rec_a_def
  by (rule spec_record_layoutI [where ty = "str_of ''bool''"]) (simp_all add: eval_layout)

lemma rec_bc_layout: "spec_record_layout rec_bc [0x62, 0x63]"
  unfolding rec_bc_def
  by (rule spec_record_layoutI [where ty = "str_of ''blob''"]) (simp_all add: eval_layout)

lemma rec_d_layout: "spec_record_layout rec_d [0x64]"
  unfolding rec_d_def
  by (rule spec_record_layoutI [where ty = "str_of ''long''"]) (simp_all add: eval_layout)

lemma chain_block_1_layout: "spec_block_layout chain_block_1 2 [[0x61], [0x62, 0x63]]"
proof -
  have r: "spec_records_layout (rec_a @ rec_bc) [[0x61], [0x62, 0x63]]"
    using records_cons [OF rec_a_layout records_cons [OF rec_bc_layout records_nil]] by simp
  have "spec_block_layout chain_block_1 (unpack_I [0x00, 0x00, 0x00, 0x02]) [[0x61], [0x62, 0x63]]"
    unfolding chain_block_1_def
    by (rule spec_block_layoutI [OF _ _ _ r]) (simp_all add: unpack_I_def be_uint_def)
  then show ?thesis by (simp add: unpack_I_def be_uint_def)
qed

lemma chain_block_2_layout: "spec_block_layout chain_block_2 0 [[0x64]]"
proof -
  have r: "spec_records_layout rec_d [[0x64]]"
    using records_cons [OF rec_d_layout records_nil] by simp
  have "spec_block_layout chain_block_2 (unpack_I [0x00, 0x00, 0x00, 0x00]) [[0x64]]"
    unfolding chain_block_2_def
    by (rule spec_block_layoutI [OF _ _ _ r]) (simp_all add: unpack_I_def be_uint_def)
  then show ?thesis by (simp add: unpack_I_def be_uint_def)
qed

lemma chain_block_lengths: "length chain_block_1 = 64" "length chain_block_2 = 32"
  by (simp_all add: chain_block_1_def chain_block_2_def rec_a_def rec_bc_def rec_d_def)

lemma chain_block_bytes:
  "block_bytes chain_store 1 = Some chain_block_1"
  "block_bytes chain_store 2 = Some chain_block_2"
  by (simp_all add: block_bytes_def chain_store_def addr_words chain_bytes_def
      chain_block_lengths)

lemma chain_store_layout: "spec_chain_layout chain_store 1 [[[0x61], [0x62, 0x63]], [[0x64]]]"
  by (rule chain_next [OF chain_block_bytes(1) chain_block_1_layout _
        chain_last [OF chain_block_bytes(2) chain_block_2_layout]]) simp

lemma zero_block_bytes: "block_bytes zero_store 0 = Some (drop 4 zero_bytes)"
  by (simp add: block_bytes_def zero_store_def addr_words zero_bytes_def)

lemma zero_block_layout: "spec_block_layout (drop 4 zero_bytes) 0 []"
proof -
  have "spec_block_layout ([0x00, 0x00, 0x00, 0x00] @ [0x00, 0x00, 0x00, 0x00] @ [] @ drop 12 zero_bytes)
          (unpack_I [0x00, 0x00, 0x00, 0x00]) []"
    by (rule spec_block_layoutI [OF _ _ _ records_nil]) (simp_all add: unpack_I_def be_uint_def)
  then show ?thesis by (simp add: unpack_I_def be_uint_def zero_bytes_def)
qed

lemma loop_block_bytes: "block_bytes loop_store 1 = Some (drop 4 loop_bytes)"
  by (simp add: block_bytes_def loop_store_def addr_words loop_bytes_def)

lemma loop_block_layout: "spec_block_layout (drop 4 loop_bytes) 1 []"
proof -
  have "spec_block_layout ([0x00, 0x00, 0x00, 0x01] @ [0x00, 0x00, 0x00, 0x00] @ [] @ drop 12 loop_bytes)
          (unpack_I [0x00, 0x00, 0x00, 0x01]) []"
    by (rule spec_block_layoutI [OF _ _ _ records_nil]) (simp_all add: unpack_I_def be_uint_def)
  then show ?thesis by (simp add: unpack_I_def be_uint_def loop_bytes_def)
qed

lemma traverse_chain_runs:
  "spec_chain_runs self b n \<Longrightarrow> traverse n self b = Inl RecursionError"
proof (induction rule: spec_chain_runs.induct)
  case (runs_0 b)
  show ?case by simp
next
  case (runs_Suc b bs nxt names n)
  from runs_Suc.IH node_records_layout [OF runs_Suc.hyps(1,2)] runs_Suc.hyps(3)
  show ?case by (simp add: traverse_Suc del: traverse.simps)
qed

lemma loop_store_runs: "spec_chain_runs loop_store 1 n"
proof (induction n)
  case 0
  show ?case by (rule runs_0)
next
  case (Suc n)
  show ?case by (rule runs_Suc [OF loop_block_bytes loop_block_layout _ Suc]) simp
qed

lemma traverse_loop_store: "traverse limit loop_store 1 = Inl RecursionError"
  by (rule traverse_chain_runs [OF loop_store_runs])

section \<open>Claims about traversal\<close>

text \<open>
  Claim C7, as amended.  For every well-formed record chain starting at a block id, with no
  more blocks than the interpreter's recursion limit admits nested calls of \<open>traverse\<close>,
  \<open>traverse\<close> returns exactly the concatenation, in forward-pointer order, of the filename
  records of the visited blocks, each block's records in their order within the block; on a
  well-formed chain with more blocks it raises \<open>RecursionError\<close>.  In particular, a block whose
  forward pointer is 0 and whose record count is 0 yields the empty sequence.
\<close>

theorem C7_traverse_chain:
  "(spec_chain_layout self b nss \<and> length nss \<le> limit \<longrightarrow>
      traverse limit self b = Inr (concat nss)) \<and>
   (spec_chain_layout self b nss \<and> limit < length nss \<longrightarrow>
      traverse limit self b = Inl RecursionError) \<and>
   (block_bytes self b = Some bs \<and> spec_block_layout bs 0 [] \<and> 0 < limit \<longrightarrow>
      traverse limit self b = Inr [])"
proof (intro conjI impI)
  assume "spec_chain_layout self b nss \<and> length nss \<le> limit"
  then show "traverse limit self b = Inr (concat nss)"
    by (blast intro: traverse_chain_layout)
next
  assume "spec_chain_layout self b nss \<and> limit < length nss"
  then show "traverse limit self b = Inl RecursionError"
    by (blast intro: traverse_chain_overflow)
next
  assume a: "block_bytes self b = Some bs \<and> spec_block_layout bs 0 [] \<and> 0 < limit"
  then have "spec_chain_layout self b [[]]" by (blast intro: chain_last)
  moreover from a have "length [[] :: str list] \<le> limit" by simp
  ultimately have "traverse limit self b = Inr (concat [[]])"
    by (rule traverse_chain_layout)
  then show "traverse limit self b = Inr []" by simp
qed

text \<open>
  The theorem at the two-block store, whose first block holds two records, with room for
  two nested calls, and at the all-zero block.
\<close>

theorem C7_traverse_chain_witness:
  "spec_chain_layout chain_store 1 [[[0x61], [0x62, 0x63]], [[0x64]]] \<and>
   traverse 2 chain_store 1 = Inr [[0x61], [0x62, 0x63], [0x64]] \<and>
   spec_block_layout (drop 4 zero_bytes) 0 [] \<and>
   traverse 1 zero_store 0 = Inr []"
proof -
  from C7_traverse_chain [of chain_store 1 "[[[0x61], [0x62, 0x63]], [[0x64]]]" 2] chain_store_layout
  have "traverse 2 chain_store 1 = Inr (concat [[[0x61], [0x62, 0x63]], [[0x64]]])"
    by simp
  then have t: "traverse 2 chain_store 1 = Inr [[0x61], [0x62, 0x63], [0x64]]" by simp
  from C7_traverse_chain [of zero_store 0 "[]" 1 "drop 4 zero_bytes"]
    zero_block_bytes zero_block_layout
  have z: "traverse 1 zero_store 0 = Inr []" by simp
  from chain_store_layout t zero_block_layout z show ?thesis by (intro conjI)
qed

text \<open>
  Claim C7 as stated fails: the chain of the two-block store is well-formed, yet with room
  for a single call of \<open>traverse\<close> the result is \<open>RecursionError\<close>, not the names.  By the
  second part of the theorem the same holds for every limit and every well-formed chain
  with more blocks than the limit, as with a chain of a thousand blocks at CPython's default.
\<close>

theorem C7_recursion_limit_counterexample:
  "spec_chain_layout chain_store 1 [[[0x61], [0x62, 0x63]], [[0x64]]] \<and>
   traverse 1 chain_store 1 = Inl RecursionError"
proof -
  have "(1::nat) < length [[[0x61], [0x62, 0x63]], [[0x64 :: nat]]]" by simp
  from traverse_chain_overflow [OF chain_store_layout this] chain_store_layout
  show ?thesis by simp
qed

section \<open>Claims about termination\<close>

text \<open>
  Claim C4, as amended.  Every decode terminates for every input buffer, except that
  staging-index name reading with name length \<open>0xFFF\<close> does not return when no zero byte
  lies at or after the current position.  A decode that terminates runs to completion or
  stops at its first error; for \<open>traverse\<close> on a chain of forward pointers that outruns the
  interpreter's recursion limit, as every cycle does, that error is \<open>RecursionError\<close>, not a
  parsing error.  In particular \<open>traverse\<close> terminates for every configuration of forward
  pointers (it is defined by recursion on the limit), and name reading terminates whenever
  the name length is below \<open>0xFFF\<close> or a zero byte lies at or after the current position.
\<close>

theorem C4_termination:
  "(flags AND 0xFFF < 0xFFF \<or> 0 \<in> set (drop (mpos f) (buf f)) \<longrightarrow>
      read_name f flags \<noteq> None) \<and>
   (spec_chain_runs self b limit \<longrightarrow> traverse limit self b = Inl RecursionError) \<and>
   traverse limit loop_store 1 = Inl RecursionError"
proof (intro conjI impI)
  assume "flags AND 0xFFF < 0xFFF \<or> 0 \<in> set (drop (mpos f) (buf f))"
  then show "read_name f flags \<noteq> None" by (rule read_name_terminates)
next
  assume "spec_chain_runs self b limit"
  then show "traverse limit self b = Inl RecursionError" by (rule traverse_chain_runs)
next
  show "traverse limit loop_store 1 = Inl RecursionError" by (rule traverse_loop_store)
qed

text \<open>
  The theorem at a name of length \<open>0xFFF\<close> followed by a zero byte, at a name of length 1, and
  at the store whose block 1 points to itself, with room for three nested calls.
\<close>

theorem C4_termination_witness:
  "0 \<in> set (drop (mpos \<lparr>buf = [0x41, 0x00], mpos = 0\<rparr>) (buf \<lparr>buf = [0x41, 0x00], mpos = 0\<rparr>)) \<and>
   read_name \<lparr>buf = [0x41, 0x00], mpos = 0\<rparr> 0xFFF \<noteq> None \<and>
   (1::nat) AND 0xFFF < 0xFFF \<and>
   read_name \<lparr>buf = [0x41], mpos = 0\<rparr> 1 \<noteq> None \<and>
   spec_chain_runs loop_store 1 3 \<and>
   traverse 3 loop_store 1 = Inl RecursionError"
proof -
  have z: "0 \<in> set (drop (mpos \<lparr>buf = [0x41, 0x00], mpos = 0\<rparr>)
                      (buf \<lparr>buf = [0x41, 0x00 :: byte], mpos = 0\<rparr>))"
    by simp
  from C4_termination [of "0xFFF" "\<lparr>buf = [0x41, 0x00], mpos = 0\<rparr>", THEN conjunct1] z
  have n: "read_name \<lparr>buf = [0x41, 0x00], mpos = 0\<rparr> 0xFFF \<noteq> None" by blast
  have s: "(1::nat) AND 0xFFF < 0xFFF" by (simp add: and_4095_mod)
  from C4_termination [of 1 "\<lparr>buf = [0x41], mpos = 0\<rparr>", THEN conjunct1] s
  have m: "read_name \<lparr>buf = [0x41], mpos = 0\<rparr> 1 \<noteq> None" by blast
  have r: "spec_chain_runs loop_store 1 3" by (rule loop_store_runs)
  from C4_termination [of _ _ loop_store 1 3, THEN conjunct2, THEN conjunct1] r
  have t: "traverse 3 loop_store 1 = Inl RecursionError" by blast
  from z n s m r t show ?thesis by (intro conjI)
qed

text \<open>
  Claim C4 as stated fails.  With name length \<open>0xFFF\<close> and no zero byte left in the buffer,
  name reading never returns: at the end of the buffer \<open>f.read(1)\<close> returns the empty string,
  which is not \<open>b"\x00"\<close>.  And in the store whose block 1 points to itself, \<open>traverse\<close>
  neither completes nor stops at a parsing error: it stops with \<open>RecursionError\<close>.
\<close>

theorem C4_nontermination_counterexample:
  "read_name \<lparr>buf = [0x41], mpos = 0\<rparr> 0xFFF = None \<and>
   traverse 1000 loop_store 1 = Inl RecursionError \<and>
   \<not> is_ParsingError RecursionError"
proof -
  have "\<not> (0xFFF::nat) AND 0xFFF < 0xFFF" by (simp add: and_4095_mod)
  moreover have "0 \<notin> set (drop (mpos \<lparr>buf = [0x41], mpos = 0\<rparr>) (buf \<lparr>buf = [0x41 :: byte], mpos = 0\<rparr>))"
    by simp
  ultimately have "read_name \<lparr>buf = [0x41], mpos = 0\<rparr> 0xFFF = None"
    by (rule read_name_diverges)
  with traverse_loop_store [of 1000] show ?thesis
    by (simp add: is_ParsingError_def)
qed

section \<open>Facts about the tables\<close>












section \<open>Claims about construction\<close>




end
